theory Spec2Isabelle
  imports Complex_Main "HOL-Library.AList"
begin

section \<open>Python values\<close>

text \<open>
  \<^verbatim>\<open>neural_tangents/utils/kernel.py\<close> is dynamically typed: every field of a
  \<^verbatim>\<open>Kernel\<close> holds an arbitrary Python object. The values that the module
  distinguishes are the members of the \<^verbatim>\<open>Marginalisation\<close> enumeration
  (tested with \<^verbatim>\<open>isinstance\<close>), plain integers (what \<^verbatim>\<open>int(...)\<close> returns),
  booleans (what \<^verbatim>\<open>not ...\<close> returns) and arrays (what the covariance fields hold).
\<close>

datatype Marginalisation = OVER_ALL | OVER_PIXELS_AND_POINTS | OVER_PIXELS | OVER_POINTS | NO

text \<open>The number given to each member in the class body; \<^verbatim>\<open>int(m)\<close> of an \<^verbatim>\<open>IntEnum\<close>.\<close>

fun int_of :: "Marginalisation \<Rightarrow> int" where
  "int_of OVER_ALL = 0"
| "int_of OVER_PIXELS_AND_POINTS = 1"
| "int_of OVER_PIXELS = 2"
| "int_of OVER_POINTS = 3"
| "int_of NO = 4"

text \<open>
  \<^verbatim>\<open>IntEnum\<close> members are \<^verbatim>\<open>int\<close>s: \<^verbatim>\<open><\<close>, \<^verbatim>\<open>==\<close> and \<^verbatim>\<open>!=\<close> are those of
  \<^verbatim>\<open>int\<close> on the members' numbers.
\<close>

definition marg_lt :: "Marginalisation \<Rightarrow> Marginalisation \<Rightarrow> bool" where
  "marg_lt a b = (int_of a < int_of b)"

definition marg_ne :: "Marginalisation \<Rightarrow> Marginalisation \<Rightarrow> bool" where
  "marg_ne a b = (int_of a \<noteq> int_of b)"

text \<open>
  An array is its shape and its elements, addressed by a multi-index (one index per
  axis). A tuple and a list are the sequence of their items, a dictionary is its items
  in order; \<^verbatim>\<open>PObj\<close> is an object of any other class, one that defines neither
  \<^verbatim>\<open>__bool__\<close> nor \<^verbatim>\<open>__len__\<close>, known only by its identity.
\<close>

record ndarray =
  shape :: "nat list"
  elems :: "nat list \<Rightarrow> real"

datatype pyval =
    PNone
  | PBool bool
  | PInt int
  | PFloat real
  | PStr string
  | PTuple "pyval list"
  | PList "pyval list"
  | PDict "(pyval \<times> pyval) list"
  | PEnum Marginalisation
  | PArray ndarray
  | PObj nat

datatype error = TypeError | ValueError | AxisError | InvalidReference

text \<open>\<^verbatim>\<open>isinstance(v, Marginalisation)\<close>.\<close>

fun isinstance_Marginalisation :: "pyval \<Rightarrow> bool" where
  "isinstance_Marginalisation (PEnum m) = True"
| "isinstance_Marginalisation v = False"

text \<open>
  The two-line idiom of the module,
  \<^verbatim>\<open>if isinstance(v, Marginalisation): v = int(v)\<close>.
\<close>

fun cast_marginalisation :: "pyval \<Rightarrow> pyval" where
  "cast_marginalisation (PEnum m) = PInt (int_of m)"
| "cast_marginalisation v = v"

section \<open>The Kernel named tuple\<close>

record Kernel =
  var1 :: pyval
  nngp :: pyval
  var2 :: pyval
  ntk :: pyval
  is_gaussian :: pyval
  is_reversed :: pyval
  marginal :: pyval
  cross :: pyval
  shape1 :: pyval
  shape2 :: pyval
  x1_is_x2 :: pyval
  is_input :: pyval
  mask1 :: pyval
  mask2 :: pyval

text \<open>The field names given to \<^verbatim>\<open>collections.namedtuple\<close>, in order.\<close>

definition field_names :: "string list" where
  "field_names = [''var1'', ''nngp'', ''var2'', ''ntk'', ''is_gaussian'', ''is_reversed'',
     ''marginal'', ''cross'', ''shape1'', ''shape2'', ''x1_is_x2'', ''is_input'',
     ''mask1'', ''mask2'']"

text \<open>
  Reading a field by its name, \<^verbatim>\<open>getattr(k, n)\<close> for \<open>n\<close> one of the fourteen
  field names; another name is not a field.
\<close>

definition field :: "Kernel \<Rightarrow> string \<Rightarrow> pyval option" where
  "field k n =
     (if n = ''var1'' then Some (var1 k)
      else if n = ''nngp'' then Some (nngp k)
      else if n = ''var2'' then Some (var2 k)
      else if n = ''ntk'' then Some (ntk k)
      else if n = ''is_gaussian'' then Some (is_gaussian k)
      else if n = ''is_reversed'' then Some (is_reversed k)
      else if n = ''marginal'' then Some (marginal k)
      else if n = ''cross'' then Some (cross k)
      else if n = ''shape1'' then Some (shape1 k)
      else if n = ''shape2'' then Some (shape2 k)
      else if n = ''x1_is_x2'' then Some (x1_is_x2 k)
      else if n = ''is_input'' then Some (is_input k)
      else if n = ''mask1'' then Some (mask1 k)
      else if n = ''mask2'' then Some (mask2 k)
      else None)"

text \<open>
  \<^verbatim>\<open>Kernel.__new__\<close>: \<^verbatim>\<open>marginal\<close> and \<^verbatim>\<open>cross\<close> are cast, then the tuple is
  built from the fourteen arguments. No statement of the body can raise, which the
  result type \<^typ>\<open>error + Kernel\<close> makes a statement to prove.
\<close>

definition Kernel_new ::
  "pyval \<Rightarrow> pyval \<Rightarrow> pyval \<Rightarrow> pyval \<Rightarrow> pyval \<Rightarrow> pyval \<Rightarrow> pyval \<Rightarrow> pyval \<Rightarrow> pyval \<Rightarrow> pyval
     \<Rightarrow> pyval \<Rightarrow> pyval \<Rightarrow> pyval \<Rightarrow> pyval \<Rightarrow> error + Kernel" where
  "Kernel_new a_var1 a_nngp a_var2 a_ntk a_is_gaussian a_is_reversed a_marginal a_cross
      a_shape1 a_shape2 a_x1_is_x2 a_is_input a_mask1 a_mask2 =
     (let a_marginal = cast_marginalisation a_marginal;
          a_cross = cast_marginalisation a_cross
      in Inr \<lparr>var1 = a_var1, nngp = a_nngp, var2 = a_var2, ntk = a_ntk,
              is_gaussian = a_is_gaussian, is_reversed = a_is_reversed,
              marginal = a_marginal, cross = a_cross,
              shape1 = a_shape1, shape2 = a_shape2, x1_is_x2 = a_x1_is_x2,
              is_input = a_is_input, mask1 = a_mask1, mask2 = a_mask2\<rparr>)"

text \<open>
  Keyword arguments are a dictionary from names to values, kept as an association list
  in call order; a name that occurs twice cannot be written in a call, and the lookup
  \<^const>\<open>map_of\<close> reads the first binding.
\<close>

type_synonym kwargs = "(string \<times> pyval) list"

text \<open>
  The loop of \<^verbatim>\<open>Kernel._replace\<close>:
  \<^verbatim>\<open>for k in kwargs: if isinstance(kwargs[k], Marginalisation): kwargs[k] = int(kwargs[k])\<close>.
  The test is on the value; the key is not looked at.
\<close>

fun cast_kwargs :: "kwargs \<Rightarrow> kwargs" where
  "cast_kwargs [] = []"
| "cast_kwargs ((k, v) # kws) = (k, cast_marginalisation v) # cast_kwargs kws"

text \<open>\<^verbatim>\<open>kwds.pop(name, default)\<close>, as a read.\<close>

definition pop :: "kwargs \<Rightarrow> string \<Rightarrow> pyval \<Rightarrow> pyval" where
  "pop kwds n d = (case map_of kwds n of Some v \<Rightarrow> v | None \<Rightarrow> d)"

text \<open>
  \<^verbatim>\<open>namedtuple._replace\<close> of the standard library:
  \<^verbatim>\<open>result = self._make(map(kwds.pop, field_names, self))\<close>, then
  \<^verbatim>\<open>ValueError\<close> when a keyword is left over. \<^verbatim>\<open>_make\<close> builds the tuple with
  \<^verbatim>\<open>tuple.__new__\<close>, so \<^verbatim>\<open>Kernel.__new__\<close> does not run again.
\<close>

definition namedtuple_replace :: "Kernel \<Rightarrow> kwargs \<Rightarrow> error + Kernel" where
  "namedtuple_replace self kwds =
     (let result = \<lparr>var1 = pop kwds ''var1'' (var1 self),
                    nngp = pop kwds ''nngp'' (nngp self),
                    var2 = pop kwds ''var2'' (var2 self),
                    ntk = pop kwds ''ntk'' (ntk self),
                    is_gaussian = pop kwds ''is_gaussian'' (is_gaussian self),
                    is_reversed = pop kwds ''is_reversed'' (is_reversed self),
                    marginal = pop kwds ''marginal'' (marginal self),
                    cross = pop kwds ''cross'' (cross self),
                    shape1 = pop kwds ''shape1'' (shape1 self),
                    shape2 = pop kwds ''shape2'' (shape2 self),
                    x1_is_x2 = pop kwds ''x1_is_x2'' (x1_is_x2 self),
                    is_input = pop kwds ''is_input'' (is_input self),
                    mask1 = pop kwds ''mask1'' (mask1 self),
                    mask2 = pop kwds ''mask2'' (mask2 self)\<rparr>
      in if list_all (\<lambda>(k, v). k \<in> set field_names) kwds then Inr result
         else Inl ValueError)"

text \<open>\<^verbatim>\<open>Kernel._replace\<close>.\<close>

definition Kernel_replace :: "Kernel \<Rightarrow> kwargs \<Rightarrow> error + Kernel" where
  "Kernel_replace self kws = namedtuple_replace self (cast_kwargs kws)"

text \<open>
  \<^verbatim>\<open>not v\<close> asks \<^verbatim>\<open>v\<close> for its truth value. A number is true when it is not
  zero, a string, tuple, list or dictionary when it is not empty. An array of one
  element has the truth value of the element; an array of any other size, the empty
  array too, has none (\<^verbatim>\<open>ValueError\<close>). An object without \<^verbatim>\<open>__bool__\<close> and
  \<^verbatim>\<open>__len__\<close> is true.
\<close>

fun truth :: "pyval \<Rightarrow> error + bool" where
  "truth PNone = Inr False"
| "truth (PBool b) = Inr b"
| "truth (PInt i) = Inr (i \<noteq> 0)"
| "truth (PFloat r) = Inr (r \<noteq> 0)"
| "truth (PStr s) = Inr (s \<noteq> [])"
| "truth (PTuple vs) = Inr (vs \<noteq> [])"
| "truth (PList vs) = Inr (vs \<noteq> [])"
| "truth (PDict kvs) = Inr (kvs \<noteq> [])"
| "truth (PEnum m) = Inr (int_of m \<noteq> 0)"
| "truth (PArray a) =
     (if prod_list (shape a) = 1
      then Inr (elems a (replicate (length (shape a)) 0) \<noteq> 0)
      else Inl ValueError)"
| "truth (PObj i) = Inr True"

definition py_not :: "pyval \<Rightarrow> error + pyval" where
  "py_not v = (case truth v of Inl e \<Rightarrow> Inl e | Inr b \<Rightarrow> Inr (PBool (\<not> b)))"

text \<open>
  \<^verbatim>\<open>Kernel.reverse\<close>. The array helper \<^verbatim>\<open>utils.revert_zipped\<close> belongs to another
  module and is a parameter \<open>rz\<close>, called with a covariance field and
  \<^verbatim>\<open>self.shape1\<close>; it may raise. The four calls run in the order of the tuple, then
  \<^verbatim>\<open>not self.is_reversed\<close> is evaluated, then \<^verbatim>\<open>self._replace\<close> is called.
\<close>

type_synonym helper = "pyval \<Rightarrow> pyval \<Rightarrow> error + pyval"

definition reverse :: "helper \<Rightarrow> Kernel \<Rightarrow> error + Kernel" where
  "reverse rz self =
     (case rz (var1 self) (shape1 self) of Inl e \<Rightarrow> Inl e | Inr r_var1 \<Rightarrow>
     (case rz (nngp self) (shape1 self) of Inl e \<Rightarrow> Inl e | Inr r_nngp \<Rightarrow>
     (case rz (var2 self) (shape1 self) of Inl e \<Rightarrow> Inl e | Inr r_var2 \<Rightarrow>
     (case rz (ntk self) (shape1 self) of Inl e \<Rightarrow> Inl e | Inr r_ntk \<Rightarrow>
     (case py_not (is_reversed self) of Inl e \<Rightarrow> Inl e | Inr r_flag \<Rightarrow>
        Kernel_replace self
          [(''var1'', r_var1), (''nngp'', r_nngp), (''var2'', r_var2), (''ntk'', r_ntk),
           (''is_reversed'', r_flag)])))))"

text \<open>
  What the module's \<^verbatim>\<open>isinstance\<close> test leaves in \<^verbatim>\<open>marginal\<close> and \<^verbatim>\<open>cross\<close>:
  a value that is not a member of the enumeration.
\<close>

definition plain_ordinals :: "Kernel \<Rightarrow> bool" where
  "plain_ordinals k =
     (\<not> isinstance_Marginalisation (marginal k) \<and> \<not> isinstance_Marginalisation (cross k))"

text \<open>
  The ordinal that a value passed as \<^verbatim>\<open>marginal\<close> or \<^verbatim>\<open>cross\<close> stands for
  (``an instance of \<^verbatim>\<open>Marginalisation\<close> enum or its ID''): the number of a member, or
  a plain integer that is the number of a member.
\<close>

fun ordinal :: "pyval \<Rightarrow> int option" where
  "ordinal (PEnum m) = Some (int_of m)"
| "ordinal (PInt i) = (if 0 \<le> i \<and> i \<le> 4 then Some i else None)"
| "ordinal v = None"

section \<open>Objects and references\<close>

text \<open>
  A program holds a \<^verbatim>\<open>Kernel\<close> by reference, and a call with keyword arguments
  builds a dictionary that the callee holds by reference. The heap is the list of the
  objects built so far, tuples and dictionaries, and a reference is a position in it.
\<close>

datatype cell = Tuple Kernel | Dict kwargs

type_synonym reference = nat

type_synonym heap = "cell list"

text \<open>Building an object: \<^verbatim>\<open>tuple.__new__\<close>, or the dictionary of a call.\<close>

definition allocate :: "heap \<Rightarrow> cell \<Rightarrow> reference \<times> heap" where
  "allocate h c = (length h, h @ [c])"

text \<open>\<^verbatim>\<open>d[k]\<close>, a read of the dictionary at \<open>d\<close>.\<close>

definition getitem :: "heap \<Rightarrow> reference \<Rightarrow> string \<Rightarrow> pyval option" where
  "getitem h d k =
     (if d < length h then (case h ! d of Dict kws \<Rightarrow> map_of kws k | Tuple t \<Rightarrow> None)
      else None)"

text \<open>
  \<^verbatim>\<open>d[k] = v\<close>, a write into the object at \<open>d\<close>: the assignment in the loop of
  \<^verbatim>\<open>Kernel._replace\<close>. A tuple takes no item assignment.
\<close>

definition setitem :: "heap \<Rightarrow> reference \<Rightarrow> string \<Rightarrow> pyval \<Rightarrow> heap" where
  "setitem h d k v =
     (if d < length h
      then (case h ! d of Dict kws \<Rightarrow> h[d := Dict (AList.update k v kws)] | Tuple t \<Rightarrow> h)
      else h)"

text \<open>
  The loop of \<^verbatim>\<open>Kernel._replace\<close> on the heap: for each key \<open>k\<close> of the dictionary at
  \<open>d\<close>, \<^verbatim>\<open>if isinstance(kwargs[k], Marginalisation): kwargs[k] = int(kwargs[k])\<close>.
\<close>

fun cast_loop :: "reference \<Rightarrow> string list \<Rightarrow> heap \<Rightarrow> heap" where
  "cast_loop d [] h = h"
| "cast_loop d (k # ks) h =
     (case getitem h d k of
        Some (PEnum m) \<Rightarrow> cast_loop d ks (setitem h d k (PInt (int_of m)))
      | _ \<Rightarrow> cast_loop d ks h)"

text \<open>
  \<^verbatim>\<open>namedtuple._replace\<close> on the heap, for the tuple at \<open>self\<close> and the dictionary at
  \<open>d\<close>: the \<^verbatim>\<open>kwds.pop\<close> calls take the items named after fields out of the
  dictionary, which is a write into the object at \<open>d\<close>, and \<^verbatim>\<open>_make\<close> builds the
  tuple. (The tuple that is built before the \<^verbatim>\<open>ValueError\<close> is never referred to and
  is left out.) The model answers \<^const>\<open>InvalidReference\<close> when \<open>self\<close> is not a tuple
  or \<open>d\<close> not a dictionary, which a Python program cannot write.
\<close>

definition namedtuple_replace_h ::
  "heap \<Rightarrow> reference \<Rightarrow> reference \<Rightarrow> (error + reference) \<times> heap" where
  "namedtuple_replace_h h self d =
     (if self < length h \<and> d < length h
      then (case h ! self of
              Dict kws \<Rightarrow> (Inl InvalidReference, h)
            | Tuple s \<Rightarrow>
               (case h ! d of
                  Tuple t \<Rightarrow> (Inl InvalidReference, h)
                | Dict kwds \<Rightarrow>
                   (let h1 = h[d := Dict (filter (\<lambda>(k, v). k \<notin> set field_names) kwds)]
                    in case namedtuple_replace s kwds of
                         Inl e \<Rightarrow> (Inl e, h1)
                       | Inr k \<Rightarrow> (let (r, h2) = allocate h1 (Tuple k) in (Inr r, h2)))))
      else (Inl InvalidReference, h))"

text \<open>
  \<^verbatim>\<open>Kernel._replace\<close> on the heap. The call \<^verbatim>\<open>self._replace(**kws)\<close> builds the
  dictionary \<^verbatim>\<open>kwargs\<close>; the loop writes into it; the call
  \<^verbatim>\<open>super()._replace(**kwargs)\<close> builds a copy for the callee.
\<close>

definition Kernel_replace_h ::
  "heap \<Rightarrow> reference \<Rightarrow> kwargs \<Rightarrow> (error + reference) \<times> heap" where
  "Kernel_replace_h h self kws =
     (let (d, h1) = allocate h (Dict kws);
          h2 = cast_loop d (map fst kws) h1;
          (d', h3) = allocate h2 (h2 ! d)
      in namedtuple_replace_h h3 self d')"

text \<open>\<^verbatim>\<open>Kernel.__new__\<close> on the heap: \<^verbatim>\<open>super().__new__\<close> builds the tuple.\<close>

definition Kernel_new_h ::
  "heap \<Rightarrow> pyval \<Rightarrow> pyval \<Rightarrow> pyval \<Rightarrow> pyval \<Rightarrow> pyval \<Rightarrow> pyval \<Rightarrow> pyval \<Rightarrow> pyval \<Rightarrow> pyval
     \<Rightarrow> pyval \<Rightarrow> pyval \<Rightarrow> pyval \<Rightarrow> pyval \<Rightarrow> pyval \<Rightarrow> (error + reference) \<times> heap" where
  "Kernel_new_h h a1 a2 a3 a4 a5 a6 a7 a8 a9 a10 a11 a12 a13 a14 =
     (case Kernel_new a1 a2 a3 a4 a5 a6 a7 a8 a9 a10 a11 a12 a13 a14 of
        Inl e \<Rightarrow> (Inl e, h)
      | Inr k \<Rightarrow> (let (r, h') = allocate h (Tuple k) in (Inr r, h')))"

text \<open>
  \<^verbatim>\<open>Kernel.reverse\<close> on the heap: it reads the fields of the tuple at \<open>self\<close>, calls
  the helper and \<^verbatim>\<open>not\<close>, which build values and write nothing, and ends in
  \<^verbatim>\<open>self._replace\<close>.
\<close>

definition reverse_h :: "helper \<Rightarrow> heap \<Rightarrow> reference \<Rightarrow> (error + reference) \<times> heap" where
  "reverse_h rz h self =
     (if self < length h
      then (case h ! self of
              Dict kws \<Rightarrow> (Inl InvalidReference, h)
            | Tuple s \<Rightarrow>
     (case rz (var1 s) (shape1 s) of Inl e \<Rightarrow> (Inl e, h) | Inr r_var1 \<Rightarrow>
     (case rz (nngp s) (shape1 s) of Inl e \<Rightarrow> (Inl e, h) | Inr r_nngp \<Rightarrow>
     (case rz (var2 s) (shape1 s) of Inl e \<Rightarrow> (Inl e, h) | Inr r_var2 \<Rightarrow>
     (case rz (ntk s) (shape1 s) of Inl e \<Rightarrow> (Inl e, h) | Inr r_ntk \<Rightarrow>
     (case py_not (is_reversed s) of Inl e \<Rightarrow> (Inl e, h) | Inr r_flag \<Rightarrow>
        Kernel_replace_h h self
          [(''var1'', r_var1), (''nngp'', r_nngp), (''var2'', r_var2), (''ntk'', r_ntk),
           (''is_reversed'', r_flag)]))))))
      else (Inl InvalidReference, h))"

datatype operation =
    New pyval pyval pyval pyval pyval pyval pyval pyval pyval pyval pyval pyval pyval pyval
  | Replace reference kwargs
  | Reverse reference

text \<open>One call on the heap \<open>h\<close>: what it returns or raises, and the heap after it.\<close>

fun perform :: "helper \<Rightarrow> heap \<Rightarrow> operation \<Rightarrow> (error + reference) \<times> heap" where
  "perform rz h (New a1 a2 a3 a4 a5 a6 a7 a8 a9 a10 a11 a12 a13 a14) =
     Kernel_new_h h a1 a2 a3 a4 a5 a6 a7 a8 a9 a10 a11 a12 a13 a14"
| "perform rz h (Replace r kws) = Kernel_replace_h h r kws"
| "perform rz h (Reverse r) = reverse_h rz h r"

text \<open>A sequence of calls; the caller goes on after a call that raised.\<close>

fun run :: "helper \<Rightarrow> heap \<Rightarrow> operation list \<Rightarrow> heap" where
  "run rz h [] = h"
| "run rz h (c # cs) = run rz (snd (perform rz h c)) cs"

section \<open>The array helper\<close>

text \<open>
  Modelled from the spec: \<^verbatim>\<open>utils.revert_zipped\<close>, defined in
  \<^verbatim>\<open>neural_tangents/utils/utils.py\<close>, which is not among the sources. The
  specification describes it as follows: given an array and a reference shape describing
  the spatial-dimension count, it returns the array with the spatial axis pairs in
  reversed order: for axis pairs (H,H),(W,W),(D,D) the result is (D,D),(W,W),(H,H);
  batch axes and the order inside each pair are kept. The reference shape is that of a
  batch of inputs, with one batch axis and one channel axis beside the spatial ones
  (\<^verbatim>\<open>(5, 32, 32, 3)\<close> for a batch of five images), so it describes
  \<open>length sh - 2\<close> spatial dimensions, and the pairs are the last
  \<open>2 * (length sh - 2)\<close> axes of the array. \<^verbatim>\<open>Kernel.reverse\<close> hands \<^verbatim>\<open>var2\<close> to
  the helper as it does the other three fields, and \<^verbatim>\<open>var2\<close> is optional
  (\<^verbatim>\<open>None\<close> when there is no second batch), so for \<^verbatim>\<open>None\<close> the helper has nothing
  to permute and returns \<^verbatim>\<open>None\<close>. By the specification malformed inputs fail
  inside the helper: any other value that is not an array, a shape that is not a tuple,
  or an array with fewer axes than the pairs need.
\<close>

fun rev_pairs :: "'a list \<Rightarrow> 'a list" where
  "rev_pairs (x # y # zs) = rev_pairs zs @ [x, y]"
| "rev_pairs zs = zs"

definition revert_axes :: "nat \<Rightarrow> 'a list \<Rightarrow> 'a list" where
  "revert_axes n xs =
     (if 2 * n \<le> length xs
      then take (length xs - 2 * n) xs @ rev_pairs (drop (length xs - 2 * n) xs)
      else xs)"

fun revert_zipped :: "pyval \<Rightarrow> pyval \<Rightarrow> error + pyval" where
  "revert_zipped (PArray a) (PTuple sh) =
     (let n = length sh - 2
      in if length (shape a) < 2 * n then Inl AxisError
         else Inr (PArray \<lparr>shape = revert_axes n (shape a),
                            elems = (\<lambda>idx. elems a (revert_axes n idx))\<rparr>))"
| "revert_zipped PNone (PTuple sh) = Inr PNone"
| "revert_zipped mat sh = Inl TypeError"

text \<open>
  A covariance field laid out for \<open>n\<close> spatial axis pairs: an array with at least
  \<open>2 * n\<close> axes.
\<close>

fun zipped :: "nat \<Rightarrow> pyval \<Rightarrow> bool" where
  "zipped n (PArray a) = (2 * n \<le> length (shape a))"
| "zipped n v = False"

text \<open>What the class documents for a covariance field: an array, or \<^verbatim>\<open>None\<close>.\<close>

fun array_or_None :: "pyval \<Rightarrow> bool" where
  "array_or_None (PArray a) = True"
| "array_or_None PNone = True"
| "array_or_None v = False"

section \<open>A record for the examples\<close>

text \<open>
  A batch of two inputs with two spatial dimensions, \<open>H = 3\<close> and \<open>W = 5\<close>, and one
  channel; \<^verbatim>\<open>marginal = OVER_POINTS\<close> and \<^verbatim>\<open>cross = NO\<close>, so the variances have
  the axes \<open>(batch, H, H, W, W)\<close> and the covariances \<open>(batch, batch, H, H, W, W)\<close>. The
  element at a multi-index is the number whose decimal digits are the indices.
\<close>

definition digits :: "nat list \<Rightarrow> real" where
  "digits idx = of_nat (foldl (\<lambda>acc i. 10 * acc + i) 0 idx)"

definition example_kernel :: Kernel where
  "example_kernel =
     \<lparr>var1 = PArray \<lparr>shape = [2, 3, 3, 5, 5], elems = digits\<rparr>,
      nngp = PArray \<lparr>shape = [2, 2, 3, 3, 5, 5], elems = digits\<rparr>,
      var2 = PArray \<lparr>shape = [2, 3, 3, 5, 5], elems = digits\<rparr>,
      ntk = PArray \<lparr>shape = [2, 2, 3, 3, 5, 5], elems = digits\<rparr>,
      is_gaussian = PBool True, is_reversed = PBool False,
      marginal = PInt 3, cross = PInt 4,
      shape1 = PTuple [PInt 2, PInt 3, PInt 5, PInt 1],
      shape2 = PTuple [PInt 2, PInt 3, PInt 5, PInt 1],
      x1_is_x2 = PBool True, is_input = PBool False, mask1 = PNone, mask2 = PNone\<rparr>"

text \<open>The same batch seen by a network without spatial dimensions.\<close>

definition example_flat :: Kernel where
  "example_flat =
     \<lparr>var1 = PArray \<lparr>shape = [2], elems = digits\<rparr>,
      nngp = PArray \<lparr>shape = [2, 2], elems = digits\<rparr>,
      var2 = PArray \<lparr>shape = [2], elems = digits\<rparr>,
      ntk = PArray \<lparr>shape = [2, 2], elems = digits\<rparr>,
      is_gaussian = PBool True, is_reversed = PBool False,
      marginal = PInt 0, cross = PInt 0,
      shape1 = PTuple [PInt 2, PInt 7],
      shape2 = PTuple [PInt 2, PInt 7],
      x1_is_x2 = PBool True, is_input = PBool True, mask1 = PNone, mask2 = PNone\<rparr>"

section \<open>The enumeration\<close>

text \<open>
  C5: Marginalisation has exactly five distinct members, numbered OVER_ALL = 0,
  OVER_PIXELS_AND_POINTS = 1, OVER_PIXELS = 2, OVER_POINTS = 3, NO = 4, and for members
  a, b with the number of a below the number of b, \<^verbatim>\<open>a < b\<close> and \<^verbatim>\<open>a != b\<close> hold.
\<close>

theorem Marginalisation_ordinals_and_order:
  "(UNIV :: Marginalisation set) = {OVER_ALL, OVER_PIXELS_AND_POINTS, OVER_PIXELS, OVER_POINTS, NO}
   \<and> distinct [OVER_ALL, OVER_PIXELS_AND_POINTS, OVER_PIXELS, OVER_POINTS, NO]
   \<and> map int_of [OVER_ALL, OVER_PIXELS_AND_POINTS, OVER_PIXELS, OVER_POINTS, NO] = [0, 1, 2, 3, 4]
   \<and> inj int_of
   \<and> (\<forall>a b. int_of a < int_of b \<longrightarrow> marg_lt a b \<and> marg_ne a b \<and> a \<noteq> b)"
proof (intro conjI)
  show "(UNIV :: Marginalisation set) =
      {OVER_ALL, OVER_PIXELS_AND_POINTS, OVER_PIXELS, OVER_POINTS, NO}"
  proof
    show "UNIV \<subseteq> {OVER_ALL, OVER_PIXELS_AND_POINTS, OVER_PIXELS, OVER_POINTS, NO}"
    proof
      fix m :: Marginalisation
      show "m \<in> {OVER_ALL, OVER_PIXELS_AND_POINTS, OVER_PIXELS, OVER_POINTS, NO}"
        by (cases m) simp_all
    qed
  qed simp
  show "distinct [OVER_ALL, OVER_PIXELS_AND_POINTS, OVER_PIXELS, OVER_POINTS, NO]"
    by simp
  show "map int_of [OVER_ALL, OVER_PIXELS_AND_POINTS, OVER_PIXELS, OVER_POINTS, NO]
      = [0, 1, 2, 3, 4]"
    by simp
  show "inj int_of"
  proof (rule injI)
    fix a b assume "int_of a = int_of b"
    then show "a = b" by (cases a; cases b) simp_all
  qed
  show "\<forall>a b. int_of a < int_of b \<longrightarrow> marg_lt a b \<and> marg_ne a b \<and> a \<noteq> b"
    by (auto simp: marg_lt_def marg_ne_def)
qed

theorem Marginalisation_ordinals_and_order_witness:
  "int_of OVER_PIXELS < int_of NO \<and> marg_lt OVER_PIXELS NO \<and> marg_ne OVER_PIXELS NO
   \<and> OVER_PIXELS \<noteq> NO"
  using Marginalisation_ordinals_and_order by simp

section \<open>Replacement, field by field\<close>

lemma map_of_cast_kwargs:
  "map_of (cast_kwargs kws) n = map_option cast_marginalisation (map_of kws n)"
  by (induction kws rule: cast_kwargs.induct) simp_all

lemma keys_cast_kwargs: "map fst (cast_kwargs kws) = map fst kws"
  by (induction kws rule: cast_kwargs.induct) simp_all

lemma list_all_keys:
  "list_all (\<lambda>(k, v). k \<in> S) kws = (set (map fst kws) \<subseteq> S)"
  by (induction kws) auto

lemma pop_cast_kwargs:
  "pop (cast_kwargs kws) n d =
     (case map_of kws n of Some v \<Rightarrow> cast_marginalisation v | None \<Rightarrow> d)"
  by (simp add: pop_def map_of_cast_kwargs split: option.splits)

lemma field_by_name:
  "field k ''var1'' = Some (var1 k)"
  "field k ''nngp'' = Some (nngp k)"
  "field k ''var2'' = Some (var2 k)"
  "field k ''ntk'' = Some (ntk k)"
  "field k ''is_gaussian'' = Some (is_gaussian k)"
  "field k ''is_reversed'' = Some (is_reversed k)"
  "field k ''marginal'' = Some (marginal k)"
  "field k ''cross'' = Some (cross k)"
  "field k ''shape1'' = Some (shape1 k)"
  "field k ''shape2'' = Some (shape2 k)"
  "field k ''x1_is_x2'' = Some (x1_is_x2 k)"
  "field k ''is_input'' = Some (is_input k)"
  "field k ''mask1'' = Some (mask1 k)"
  "field k ''mask2'' = Some (mask2 k)"
  by (simp_all add: field_def)

lemma Kernel_replace_valid:
  assumes "set (map fst kws) \<subseteq> set field_names"
  shows "Kernel_replace self kws =
     Inr \<lparr>var1 = pop (cast_kwargs kws) ''var1'' (var1 self),
          nngp = pop (cast_kwargs kws) ''nngp'' (nngp self),
          var2 = pop (cast_kwargs kws) ''var2'' (var2 self),
          ntk = pop (cast_kwargs kws) ''ntk'' (ntk self),
          is_gaussian = pop (cast_kwargs kws) ''is_gaussian'' (is_gaussian self),
          is_reversed = pop (cast_kwargs kws) ''is_reversed'' (is_reversed self),
          marginal = pop (cast_kwargs kws) ''marginal'' (marginal self),
          cross = pop (cast_kwargs kws) ''cross'' (cross self),
          shape1 = pop (cast_kwargs kws) ''shape1'' (shape1 self),
          shape2 = pop (cast_kwargs kws) ''shape2'' (shape2 self),
          x1_is_x2 = pop (cast_kwargs kws) ''x1_is_x2'' (x1_is_x2 self),
          is_input = pop (cast_kwargs kws) ''is_input'' (is_input self),
          mask1 = pop (cast_kwargs kws) ''mask1'' (mask1 self),
          mask2 = pop (cast_kwargs kws) ''mask2'' (mask2 self)\<rparr>"
proof -
  have "list_all (\<lambda>(k, v). k \<in> set field_names) (cast_kwargs kws)"
    using assms by (simp add: list_all_keys keys_cast_kwargs)
  then show ?thesis
    by (simp add: Kernel_replace_def namedtuple_replace_def)
qed

lemma Kernel_replace_invalid:
  assumes "\<not> set (map fst kws) \<subseteq> set field_names"
  shows "Kernel_replace self kws = Inl ValueError"
proof -
  have "\<not> list_all (\<lambda>(k, v). k \<in> set field_names) (cast_kwargs kws)"
    using assms by (simp add: list_all_keys keys_cast_kwargs)
  then show ?thesis
    by (simp add: Kernel_replace_def namedtuple_replace_def)
qed

lemma Kernel_replace_sel:
  assumes "Kernel_replace self kws = Inr k"
  shows "var1 k = (case map_of kws ''var1'' of Some v \<Rightarrow> cast_marginalisation v | None \<Rightarrow> var1 self)"
    "nngp k = (case map_of kws ''nngp'' of Some v \<Rightarrow> cast_marginalisation v | None \<Rightarrow> nngp self)"
    "var2 k = (case map_of kws ''var2'' of Some v \<Rightarrow> cast_marginalisation v | None \<Rightarrow> var2 self)"
    "ntk k = (case map_of kws ''ntk'' of Some v \<Rightarrow> cast_marginalisation v | None \<Rightarrow> ntk self)"
    "is_gaussian k = (case map_of kws ''is_gaussian'' of Some v \<Rightarrow> cast_marginalisation v | None \<Rightarrow> is_gaussian self)"
    "is_reversed k = (case map_of kws ''is_reversed'' of Some v \<Rightarrow> cast_marginalisation v | None \<Rightarrow> is_reversed self)"
    "marginal k = (case map_of kws ''marginal'' of Some v \<Rightarrow> cast_marginalisation v | None \<Rightarrow> marginal self)"
    "cross k = (case map_of kws ''cross'' of Some v \<Rightarrow> cast_marginalisation v | None \<Rightarrow> cross self)"
    "shape1 k = (case map_of kws ''shape1'' of Some v \<Rightarrow> cast_marginalisation v | None \<Rightarrow> shape1 self)"
    "shape2 k = (case map_of kws ''shape2'' of Some v \<Rightarrow> cast_marginalisation v | None \<Rightarrow> shape2 self)"
    "x1_is_x2 k = (case map_of kws ''x1_is_x2'' of Some v \<Rightarrow> cast_marginalisation v | None \<Rightarrow> x1_is_x2 self)"
    "is_input k = (case map_of kws ''is_input'' of Some v \<Rightarrow> cast_marginalisation v | None \<Rightarrow> is_input self)"
    "mask1 k = (case map_of kws ''mask1'' of Some v \<Rightarrow> cast_marginalisation v | None \<Rightarrow> mask1 self)"
    "mask2 k = (case map_of kws ''mask2'' of Some v \<Rightarrow> cast_marginalisation v | None \<Rightarrow> mask2 self)"
proof -
  have v: "set (map fst kws) \<subseteq> set field_names"
    using assms Kernel_replace_invalid [of kws self] by auto
  have k: "k = \<lparr>var1 = pop (cast_kwargs kws) ''var1'' (var1 self),
          nngp = pop (cast_kwargs kws) ''nngp'' (nngp self),
          var2 = pop (cast_kwargs kws) ''var2'' (var2 self),
          ntk = pop (cast_kwargs kws) ''ntk'' (ntk self),
          is_gaussian = pop (cast_kwargs kws) ''is_gaussian'' (is_gaussian self),
          is_reversed = pop (cast_kwargs kws) ''is_reversed'' (is_reversed self),
          marginal = pop (cast_kwargs kws) ''marginal'' (marginal self),
          cross = pop (cast_kwargs kws) ''cross'' (cross self),
          shape1 = pop (cast_kwargs kws) ''shape1'' (shape1 self),
          shape2 = pop (cast_kwargs kws) ''shape2'' (shape2 self),
          x1_is_x2 = pop (cast_kwargs kws) ''x1_is_x2'' (x1_is_x2 self),
          is_input = pop (cast_kwargs kws) ''is_input'' (is_input self),
          mask1 = pop (cast_kwargs kws) ''mask1'' (mask1 self),
          mask2 = pop (cast_kwargs kws) ''mask2'' (mask2 self)\<rparr>"
    using Kernel_replace_valid [OF v, of self] assms by simp
  show "var1 k = (case map_of kws ''var1'' of Some v \<Rightarrow> cast_marginalisation v | None \<Rightarrow> var1 self)"
    "nngp k = (case map_of kws ''nngp'' of Some v \<Rightarrow> cast_marginalisation v | None \<Rightarrow> nngp self)"
    "var2 k = (case map_of kws ''var2'' of Some v \<Rightarrow> cast_marginalisation v | None \<Rightarrow> var2 self)"
    "ntk k = (case map_of kws ''ntk'' of Some v \<Rightarrow> cast_marginalisation v | None \<Rightarrow> ntk self)"
    "is_gaussian k = (case map_of kws ''is_gaussian'' of Some v \<Rightarrow> cast_marginalisation v | None \<Rightarrow> is_gaussian self)"
    "is_reversed k = (case map_of kws ''is_reversed'' of Some v \<Rightarrow> cast_marginalisation v | None \<Rightarrow> is_reversed self)"
    "marginal k = (case map_of kws ''marginal'' of Some v \<Rightarrow> cast_marginalisation v | None \<Rightarrow> marginal self)"
    "cross k = (case map_of kws ''cross'' of Some v \<Rightarrow> cast_marginalisation v | None \<Rightarrow> cross self)"
    "shape1 k = (case map_of kws ''shape1'' of Some v \<Rightarrow> cast_marginalisation v | None \<Rightarrow> shape1 self)"
    "shape2 k = (case map_of kws ''shape2'' of Some v \<Rightarrow> cast_marginalisation v | None \<Rightarrow> shape2 self)"
    "x1_is_x2 k = (case map_of kws ''x1_is_x2'' of Some v \<Rightarrow> cast_marginalisation v | None \<Rightarrow> x1_is_x2 self)"
    "is_input k = (case map_of kws ''is_input'' of Some v \<Rightarrow> cast_marginalisation v | None \<Rightarrow> is_input self)"
    "mask1 k = (case map_of kws ''mask1'' of Some v \<Rightarrow> cast_marginalisation v | None \<Rightarrow> mask1 self)"
    "mask2 k = (case map_of kws ''mask2'' of Some v \<Rightarrow> cast_marginalisation v | None \<Rightarrow> mask2 self)"
    unfolding k pop_cast_kwargs by simp_all
qed

lemma Kernel_replace_field:
  assumes "n \<in> set field_names" and "Kernel_replace self kws = Inr k"
  shows "field k n = (case map_of kws n of Some v \<Rightarrow> Some (cast_marginalisation v)
                      | None \<Rightarrow> field self n)"
proof -
  have "n = ''var1'' \<or> n = ''nngp'' \<or> n = ''var2'' \<or> n = ''ntk'' \<or> n = ''is_gaussian'' \<or> n = ''is_reversed'' \<or> n = ''marginal'' \<or> n = ''cross'' \<or> n = ''shape1'' \<or> n = ''shape2'' \<or> n = ''x1_is_x2'' \<or> n = ''is_input'' \<or> n = ''mask1'' \<or> n = ''mask2''"
    using assms(1) unfolding field_names_def by (simp only: list.set insert_iff empty_iff simp_thms)
  then show ?thesis
    by (elim disjE)
      (simp_all only: field_by_name Kernel_replace_sel [OF assms(2)], simp_all split: option.split)
qed

lemma cast_not_instance: "\<not> isinstance_Marginalisation (cast_marginalisation v)"
  by (cases v) simp_all

lemma cast_plain: "\<not> isinstance_Marginalisation v \<Longrightarrow> cast_marginalisation v = v"
  by (cases v) simp_all

lemma cast_ordinal: "ordinal v = Some i \<Longrightarrow> cast_marginalisation v = PInt i"
  by (cases v) (simp_all split: if_splits)

lemma Kernel_new_plain:
  "Kernel_new a1 a2 a3 a4 a5 a6 a7 a8 a9 a10 a11 a12 a13 a14 = Inr k \<Longrightarrow> plain_ordinals k"
  by (auto simp: Kernel_new_def plain_ordinals_def cast_not_instance)

lemma Kernel_replace_plain:
  assumes "Kernel_replace self kws = Inr k" and "plain_ordinals self"
  shows "plain_ordinals k"
  using assms(2) unfolding plain_ordinals_def
  by (simp add: Kernel_replace_sel [OF assms(1)] cast_not_instance split: option.splits)

lemma reverse_kwargs:
  "Kernel_replace self
     [(''var1'', v1), (''nngp'', v2), (''var2'', v3), (''ntk'', v4), (''is_reversed'', v5)] =
   Inr (self\<lparr>var1 := cast_marginalisation v1, nngp := cast_marginalisation v2,
          var2 := cast_marginalisation v3, ntk := cast_marginalisation v4,
          is_reversed := cast_marginalisation v5\<rparr>)"
proof -
  let ?kws = "[(''var1'', v1), (''nngp'', v2), (''var2'', v3), (''ntk'', v4),
      (''is_reversed'', v5)]"
  have "set (map fst ?kws) \<subseteq> set field_names"
    by (simp add: field_names_def)
  from Kernel_replace_valid [OF this, of self]
  obtain k where k: "Kernel_replace self ?kws = Inr k"
    by blast
  have "k = self\<lparr>var1 := cast_marginalisation v1, nngp := cast_marginalisation v2,
          var2 := cast_marginalisation v3, ntk := cast_marginalisation v4,
          is_reversed := cast_marginalisation v5\<rparr>"
    by (rule Kernel.equality) (simp_all add: Kernel_replace_sel [OF k])
  with k show ?thesis by simp
qed

lemma reverse_returns:
  assumes "rz (var1 self) (shape1 self) = Inr v1" and "rz (nngp self) (shape1 self) = Inr v2"
    and "rz (var2 self) (shape1 self) = Inr v3" and "rz (ntk self) (shape1 self) = Inr v4"
    and "truth (is_reversed self) = Inr b"
  shows "reverse rz self =
     Inr (self\<lparr>var1 := cast_marginalisation v1, nngp := cast_marginalisation v2,
            var2 := cast_marginalisation v3, ntk := cast_marginalisation v4,
            is_reversed := PBool (\<not> b)\<rparr>)"
  unfolding reverse_def by (simp add: assms py_not_def reverse_kwargs)

lemma reverse_inversion:
  assumes "reverse rz self = Inr k"
  shows "\<exists>v1 v2 v3 v4 b. rz (var1 self) (shape1 self) = Inr v1
      \<and> rz (nngp self) (shape1 self) = Inr v2 \<and> rz (var2 self) (shape1 self) = Inr v3
      \<and> rz (ntk self) (shape1 self) = Inr v4 \<and> truth (is_reversed self) = Inr b"
  using assms unfolding reverse_def py_not_def by (auto split: sum.splits)

lemma reverse_plain:
  assumes "reverse rz self = Inr k" and "plain_ordinals self"
  shows "plain_ordinals k"
proof -
  from reverse_inversion [OF assms(1)] obtain v1 v2 v3 v4 b where
    "rz (var1 self) (shape1 self) = Inr v1" "rz (nngp self) (shape1 self) = Inr v2"
    "rz (var2 self) (shape1 self) = Inr v3" "rz (ntk self) (shape1 self) = Inr v4"
    "truth (is_reversed self) = Inr b" by blast
  from reverse_returns [of rz self, OF this] assms show ?thesis
    by (auto simp: plain_ordinals_def)
qed

section \<open>The calls on the heap\<close>

lemma cast_idem: "cast_marginalisation (cast_marginalisation v) = cast_marginalisation v"
  by (cases v) simp_all

lemma allocate_keeps:
  "allocate h c = (r, h') \<Longrightarrow> r = length h \<and> h' = h @ [c]"
  by (auto simp: allocate_def)

lemma cast_loop_step_other:
  assumes "\<not> isinstance_Marginalisation v" and "getitem h d k = Some v"
  shows "cast_loop d (k # ks) h = cast_loop d ks h"
  using assms by (cases v) simp_all

lemma cast_loop_dict:
  assumes "d < length h" and "h ! d = Dict kw"
  shows "\<exists>kw'. cast_loop d ks h = h[d := Dict kw'] \<and> map fst kw' = map fst kw
      \<and> (\<forall>x. map_of kw' x = (if x \<in> set ks then map_option cast_marginalisation (map_of kw x)
                               else map_of kw x))"
  using assms
proof (induction ks arbitrary: h kw)
  case Nil
  then have "h[d := Dict kw] = h"
    by (metis list_update_id)
  then show ?case by (intro exI [of _ kw]) simp
next
  case (Cons k ks)
  have g: "getitem h d k = map_of kw k"
    using Cons.prems by (simp add: getitem_def)
  show ?case
  proof (cases "map_of kw k")
    case None
    with g have s: "cast_loop d (k # ks) h = cast_loop d ks h"
      by simp
    from Cons.IH [OF Cons.prems] obtain kw' where
      kw': "cast_loop d ks h = h[d := Dict kw']" "map fst kw' = map fst kw"
        "\<forall>x. map_of kw' x = (if x \<in> set ks then map_option cast_marginalisation (map_of kw x)
                              else map_of kw x)"
      by blast
    from kw'(3) None have "\<forall>x. map_of kw' x =
        (if x \<in> set (k # ks) then map_option cast_marginalisation (map_of kw x)
         else map_of kw x)"
      by auto
    with s kw'(1,2) show ?thesis by (intro exI [of _ kw']) simp
  next
    case (Some v)
    show ?thesis
    proof (cases "isinstance_Marginalisation v")
      case False
      with g Some have s: "cast_loop d (k # ks) h = cast_loop d ks h"
        using cast_loop_step_other by simp
      from Cons.IH [OF Cons.prems] obtain kw' where
        kw': "cast_loop d ks h = h[d := Dict kw']" "map fst kw' = map fst kw"
          "\<forall>x. map_of kw' x = (if x \<in> set ks then map_option cast_marginalisation (map_of kw x)
                                else map_of kw x)"
        by blast
      from False have "cast_marginalisation v = v"
        by (cases v) simp_all
      with kw'(3) Some have "\<forall>x. map_of kw' x =
          (if x \<in> set (k # ks) then map_option cast_marginalisation (map_of kw x)
           else map_of kw x)"
        by auto
      with s kw'(1,2) show ?thesis by (intro exI [of _ kw']) simp
    next
      case True
      then obtain m where v: "v = PEnum m"
        by (cases v) simp_all
      let ?kw1 = "AList.update k (PInt (int_of m)) kw"
      let ?h1 = "h[d := Dict ?kw1]"
      have w: "setitem h d k (PInt (int_of m)) = ?h1"
        using Cons.prems by (simp add: setitem_def)
      have s: "cast_loop d (k # ks) h = cast_loop d ks ?h1"
        using g Some v w by simp
      have p1: "d < length ?h1" "?h1 ! d = Dict ?kw1"
        using Cons.prems by simp_all
      from Cons.IH [OF p1] obtain kw' where
        kw': "cast_loop d ks ?h1 = ?h1[d := Dict kw']" "map fst kw' = map fst ?kw1"
          "\<forall>x. map_of kw' x = (if x \<in> set ks then map_option cast_marginalisation (map_of ?kw1 x)
                                else map_of ?kw1 x)"
        by blast
      have "k \<in> set (map fst kw)"
        using Some by (metis map_of_eq_None_iff option.distinct(1) set_map)
      then have k1: "map fst ?kw1 = map fst kw"
        by (simp add: update_keys)
      have m1: "map_of ?kw1 = (map_of kw)(k \<mapsto> PInt (int_of m))"
        by (rule update_conv')
      have "\<forall>x. map_of kw' x =
          (if x \<in> set (k # ks) then map_option cast_marginalisation (map_of kw x)
           else map_of kw x)"
        using kw'(3) m1 Some v by auto
      moreover have "cast_loop d (k # ks) h = h[d := Dict kw']"
        using s kw'(1) by simp
      ultimately show ?thesis using kw'(2) k1 by (intro exI [of _ kw']) simp
    qed
  qed
qed

lemma namedtuple_replace_cong:
  assumes "map_of kw1 = map_of kw2" and "set (map fst kw1) = set (map fst kw2)"
  shows "namedtuple_replace s kw1 = namedtuple_replace s kw2"
  using assms by (simp add: namedtuple_replace_def pop_def list_all_keys)

lemma cast_loop_all:
  assumes "d < length h" and "h ! d = Dict kws"
  shows "\<exists>kw'. cast_loop d (map fst kws) h = h[d := Dict kw']
      \<and> namedtuple_replace s kw' = namedtuple_replace s (cast_kwargs kws)"
proof -
  from cast_loop_dict [OF assms, of "map fst kws"] obtain kw' where
    kw': "cast_loop d (map fst kws) h = h[d := Dict kw']" "map fst kw' = map fst kws"
      "\<forall>x. map_of kw' x = (if x \<in> set (map fst kws)
          then map_option cast_marginalisation (map_of kws x) else map_of kws x)"
    by blast
  have "map_of kw' x = map_of (cast_kwargs kws) x" for x
  proof (cases "x \<in> set (map fst kws)")
    case True
    with kw'(3) show ?thesis by (simp add: map_of_cast_kwargs)
  next
    case False
    then have "map_of kws x = None"
      by (simp add: map_of_eq_None_iff)
    with kw'(3) False show ?thesis by (simp add: map_of_cast_kwargs)
  qed
  then have "map_of kw' = map_of (cast_kwargs kws)"
    by (rule ext)
  moreover have "set (map fst kw') = set (map fst (cast_kwargs kws))"
    by (simp add: kw'(2) keys_cast_kwargs)
  ultimately have "namedtuple_replace s kw' = namedtuple_replace s (cast_kwargs kws)"
    by (rule namedtuple_replace_cong)
  with kw'(1) show ?thesis by blast
qed

lemma Kernel_replace_h_refines:
  assumes "self < length h" and "h ! self = Tuple s"
  shows "\<exists>kw1 kw2. Kernel_replace_h h self kws =
     (case Kernel_replace s kws of
        Inl e \<Rightarrow> (Inl e, h @ [Dict kw1, Dict kw2])
      | Inr k \<Rightarrow> (Inr (length h + 2), h @ [Dict kw1, Dict kw2, Tuple k]))"
proof -
  let ?h1 = "h @ [Dict kws]"
  have "length h < length ?h1" "?h1 ! length h = Dict kws"
    by simp_all
  from cast_loop_all [OF this, of s] obtain kw1 where
    kw1: "cast_loop (length h) (map fst kws) ?h1 = ?h1[length h := Dict kw1]"
      "namedtuple_replace s kw1 = namedtuple_replace s (cast_kwargs kws)"
    by blast
  let ?h2 = "h @ [Dict kw1]"
  have h2: "?h1[length h := Dict kw1] = ?h2"
    by simp
  let ?h3 = "h @ [Dict kw1, Dict kw1]"
  let ?kw2 = "filter (\<lambda>(k, v). k \<notin> set field_names) kw1"
  have a: "Kernel_replace_h h self kws = namedtuple_replace_h ?h3 self (Suc (length h))"
    by (simp add: Kernel_replace_h_def allocate_def kw1(1) h2)
  have r: "?h3 ! self = Tuple s" "?h3 ! Suc (length h) = Dict kw1"
    "?h3[Suc (length h) := Dict ?kw2] = h @ [Dict kw1, Dict ?kw2]"
    using assms by (simp_all add: nth_append list_update_append)
  have "namedtuple_replace_h ?h3 self (Suc (length h)) =
     (case Kernel_replace s kws of
        Inl e \<Rightarrow> (Inl e, h @ [Dict kw1, Dict ?kw2])
      | Inr k \<Rightarrow> (Inr (length h + 2), h @ [Dict kw1, Dict ?kw2, Tuple k]))"
    using assms(1) unfolding namedtuple_replace_h_def r Kernel_replace_def kw1(2) [symmetric]
    by (simp add: allocate_def r split: sum.splits)
  with a show ?thesis by metis
qed

lemma Kernel_replace_h_invalid:
  assumes "\<not> (self < length h \<and> (\<exists>s. h ! self = Tuple s))"
  shows "\<exists>kw1. Kernel_replace_h h self kws = (Inl InvalidReference, h @ [Dict kw1, Dict kw1])"
proof -
  let ?h1 = "h @ [Dict kws]"
  have "length h < length ?h1" "?h1 ! length h = Dict kws"
    by simp_all
  from cast_loop_dict [OF this, of "map fst kws"] obtain kw1 where
    kw1: "cast_loop (length h) (map fst kws) ?h1 = ?h1[length h := Dict kw1]"
    by blast
  have "Kernel_replace_h h self kws = (Inl InvalidReference, h @ [Dict kw1, Dict kw1])"
  proof (cases "self < length h")
    case True
    with assms obtain kw where "h ! self = Dict kw"
      by (cases "h ! self") auto
    with True show ?thesis
      by (simp add: Kernel_replace_h_def allocate_def kw1 namedtuple_replace_h_def nth_append)
  next
    case False
    show ?thesis
    proof (cases "self < length h + 2")
      case False
      then show ?thesis
        by (simp add: Kernel_replace_h_def allocate_def kw1 namedtuple_replace_h_def)
    next
      case True
      with \<open>\<not> self < length h\<close> have "(h @ [Dict kw1, Dict kw1]) ! self = Dict kw1"
        by (auto simp: nth_append nth_Cons split: nat.splits)
      with True show ?thesis
        by (simp add: Kernel_replace_h_def allocate_def kw1 namedtuple_replace_h_def)
    qed
  qed
  then show ?thesis by blast
qed

lemma Kernel_replace_h_grows:
  "\<exists>g. snd (Kernel_replace_h h self kws) = h @ g"
proof (cases "self < length h \<and> (\<exists>s. h ! self = Tuple s)")
  case True
  then obtain s where s: "self < length h" "h ! self = Tuple s"
    by blast
  from Kernel_replace_h_refines [OF s, of kws] obtain kw1 kw2 where
    "Kernel_replace_h h self kws =
      (case Kernel_replace s kws of
         Inl e \<Rightarrow> (Inl e, h @ [Dict kw1, Dict kw2])
       | Inr k \<Rightarrow> (Inr (length h + 2), h @ [Dict kw1, Dict kw2, Tuple k]))"
    by blast
  then show ?thesis
    by (cases "Kernel_replace s kws") auto
next
  case False
  from Kernel_replace_h_invalid [OF False, of kws] show ?thesis
    by auto
qed

lemma Kernel_new_h_returns:
  "\<exists>k. Kernel_new a1 a2 a3 a4 a5 a6 a7 a8 a9 a10 a11 a12 a13 a14 = Inr k
     \<and> Kernel_new_h h a1 a2 a3 a4 a5 a6 a7 a8 a9 a10 a11 a12 a13 a14
       = (Inr (length h), h @ [Tuple k])"
  by (simp add: Kernel_new_h_def Kernel_new_def allocate_def)

lemma reverse_h_refines:
  assumes "self < length h" and "h ! self = Tuple s" and "reverse rz s = Inr k"
  shows "\<exists>kw1 kw2. reverse_h rz h self
      = (Inr (length h + 2), h @ [Dict kw1, Dict kw2, Tuple k])"
proof -
  from reverse_inversion [OF assms(3)] obtain v1 v2 v3 v4 b where
    v: "rz (var1 s) (shape1 s) = Inr v1" "rz (nngp s) (shape1 s) = Inr v2"
    "rz (var2 s) (shape1 s) = Inr v3" "rz (ntk s) (shape1 s) = Inr v4"
    "truth (is_reversed s) = Inr b" by blast
  let ?kws = "[(''var1'', v1), (''nngp'', v2), (''var2'', v3), (''ntk'', v4),
      (''is_reversed'', PBool (\<not> b))]"
  have p: "Kernel_replace s ?kws = Inr k"
    using assms(3) v unfolding reverse_def by (simp add: py_not_def)
  have "reverse_h rz h self = Kernel_replace_h h self ?kws"
    using assms(1,2) v unfolding reverse_h_def by (simp add: py_not_def)
  with Kernel_replace_h_refines [OF assms(1,2), of ?kws] p show ?thesis
    by simp
qed

lemma reverse_h_grows: "\<exists>g. snd (reverse_h rz h self) = h @ g"
proof -
  have e: "\<exists>g. h = h @ g"
    by simp
  show ?thesis
    unfolding reverse_h_def using e Kernel_replace_h_grows
    by (simp split: sum.splits cell.splits)
qed

lemma perform_grows: "\<exists>g. snd (perform rz h c) = h @ g"
proof (cases c)
  case (New a1 a2 a3 a4 a5 a6 a7 a8 a9 a10 a11 a12 a13 a14)
  from Kernel_new_h_returns [of a1 a2 a3 a4 a5 a6 a7 a8 a9 a10 a11 a12 a13 a14 h] New
  show ?thesis by auto
next
  case (Replace r kws)
  then show ?thesis using Kernel_replace_h_grows by simp
next
  case (Reverse r)
  then show ?thesis using reverse_h_grows by simp
qed

lemma run_grows: "\<exists>g. run rz h cs = h @ g"
proof (induction cs arbitrary: h)
  case Nil
  show ?case by simp
next
  case (Cons c cs)
  from perform_grows [of rz h c] obtain g where g: "snd (perform rz h c) = h @ g"
    by blast
  from Cons.IH [of "h @ g"] obtain g' where "run rz (h @ g) cs = (h @ g) @ g'"
    by blast
  with g show ?case by simp
qed

lemma Kernel_replace_h_fresh:
  assumes "fst (Kernel_replace_h h self kws) = Inr r'"
  shows "length h \<le> r' \<and> (\<exists>k. snd (Kernel_replace_h h self kws) ! r' = Tuple k)"
proof (cases "self < length h \<and> (\<exists>s. h ! self = Tuple s)")
  case True
  then obtain s where s: "self < length h" "h ! self = Tuple s"
    by blast
  from Kernel_replace_h_refines [OF s, of kws] obtain kw1 kw2 where
    r: "Kernel_replace_h h self kws =
        (case Kernel_replace s kws of
           Inl e \<Rightarrow> (Inl e, h @ [Dict kw1, Dict kw2])
         | Inr k \<Rightarrow> (Inr (length h + 2), h @ [Dict kw1, Dict kw2, Tuple k]))"
    by blast
  show ?thesis
  proof (cases "Kernel_replace s kws")
    case (Inl e)
    with r assms show ?thesis by simp
  next
    case (Inr k)
    with r assms have "r' = length h + 2"
      "snd (Kernel_replace_h h self kws) = h @ [Dict kw1, Dict kw2, Tuple k]"
      by simp_all
    then show ?thesis by (simp add: nth_append)
  qed
next
  case False
  from Kernel_replace_h_invalid [OF False, of kws] assms show ?thesis
    by auto
qed

lemma reverse_h_fresh:
  assumes "fst (reverse_h rz h self) = Inr r'"
  shows "length h \<le> r' \<and> (\<exists>k. snd (reverse_h rz h self) ! r' = Tuple k)"
  using assms Kernel_replace_h_fresh unfolding reverse_h_def
  by (auto split: if_splits sum.splits cell.splits)

lemma perform_fresh:
  assumes "fst (perform rz h c) = Inr r'"
  shows "length h \<le> r' \<and> (\<exists>k. snd (perform rz h c) ! r' = Tuple k)"
proof (cases c)
  case (New a1 a2 a3 a4 a5 a6 a7 a8 a9 a10 a11 a12 a13 a14)
  from Kernel_new_h_returns [of a1 a2 a3 a4 a5 a6 a7 a8 a9 a10 a11 a12 a13 a14 h] New assms
  show ?thesis by auto
next
  case (Replace r kws)
  with assms Kernel_replace_h_fresh show ?thesis by simp
next
  case (Reverse r)
  with assms reverse_h_fresh show ?thesis by simp
qed

text \<open>
  The writes are there: the loop changes the dictionary of the call, and
  \<^const>\<open>namedtuple_replace_h\<close> empties the dictionary it is given, wherever that is.
\<close>

lemma cast_loop_writes:
  "snd (Kernel_replace_h [Tuple example_flat] 0 [(''marginal'', PEnum NO), (''mask1'', PNone)])
     ! 1 = Dict [(''marginal'', PInt 4), (''mask1'', PNone)]"
  by (simp add: Kernel_replace_h_def allocate_def getitem_def setitem_def
      namedtuple_replace_h_def Let_def nth_append split: sum.splits)

lemma pop_writes:
  "snd (namedtuple_replace_h [Tuple example_flat, Dict [(''mask1'', PInt 1)]] 0 1) ! 1 = Dict []"
  by (simp add: namedtuple_replace_h_def allocate_def field_names_def Let_def
      split: sum.splits)

section \<open>Reversing the axis pairs\<close>

lemma length_rev_pairs: "length (rev_pairs xs) = length xs"
  by (induction xs rule: rev_pairs.induct) simp_all

lemma rev_pairs_snoc2:
  "even (length xs) \<Longrightarrow> rev_pairs (xs @ [x, y]) = x # y # rev_pairs xs"
  by (induction xs rule: rev_pairs.induct) simp_all

lemma rev_pairs_involution: "even (length xs) \<Longrightarrow> rev_pairs (rev_pairs xs) = xs"
proof (induction xs rule: rev_pairs.induct)
  case (1 x y zs)
  then have e: "even (length (rev_pairs zs))"
    by (simp add: length_rev_pairs)
  from 1 show ?case
    by (simp add: rev_pairs_snoc2 [OF e])
qed simp_all

lemma length_revert_axes: "length (revert_axes n xs) = length xs"
  by (simp add: revert_axes_def length_rev_pairs)

lemma revert_axes_involution: "revert_axes n (revert_axes n xs) = xs"
proof (cases "2 * n \<le> length xs")
  case True
  let ?b = "take (length xs - 2 * n) xs" and ?s = "drop (length xs - 2 * n) xs"
  have l: "length ?b = length xs - 2 * n" "length ?s = 2 * n"
    using True by simp_all
  have r: "revert_axes n xs = ?b @ rev_pairs ?s"
    using True by (simp add: revert_axes_def)
  have "revert_axes n (?b @ rev_pairs ?s) = ?b @ rev_pairs (rev_pairs ?s)"
    using True l by (simp add: revert_axes_def length_rev_pairs)
  also have "\<dots> = ?b @ ?s"
    using l by (simp add: rev_pairs_involution)
  finally show ?thesis
    using r by simp
next
  case False
  then show ?thesis by (simp add: revert_axes_def)
qed

lemma revert_axes_none: "revert_axes 0 xs = xs"
  by (simp add: revert_axes_def)

lemma revert_zipped_twice:
  assumes "zipped (length sh - 2) mat"
  shows "\<exists>mat'. revert_zipped mat (PTuple sh) = Inr mat'
      \<and> zipped (length sh - 2) mat' \<and> \<not> isinstance_Marginalisation mat'
      \<and> revert_zipped mat' (PTuple sh) = Inr mat"
proof (cases mat)
  case (PArray a)
  with assms have "2 * (length sh - 2) \<le> length (shape a)"
    by simp
  then show ?thesis
    using PArray by (simp add: Let_def length_revert_axes revert_axes_involution)
qed (use assms in simp_all)

lemma zipped_not_instance: "zipped n v \<Longrightarrow> \<not> isinstance_Marginalisation v"
  by (cases v) simp_all

lemma revert_axes_example:
  "revert_axes 2 [2, 3, 3, 5, 5 :: nat] = [2, 5, 5, 3, 3]"
  "revert_axes 3 [b1, b2, h, h', w, w', d, d'] = [b1, b2, d, d', w, w', h, h']"
  by (simp_all add: revert_axes_def)

section \<open>Construction\<close>

text \<open>
  C6: construction validates nothing beyond the cast of \<^verbatim>\<open>marginal\<close> and
  \<^verbatim>\<open>cross\<close>: for every combination of the fourteen arguments \<^verbatim>\<open>Kernel.__new__\<close>
  returns, without raising, the record whose fields are the arguments, \<^verbatim>\<open>marginal\<close>
  and \<^verbatim>\<open>cross\<close> cast. The instance after it has covariances of different shapes, a
  mask that fits no shape and \<^verbatim>\<open>is_reversed = True\<close> with \<^verbatim>\<open>marginal = OVER_ALL\<close>.
\<close>

theorem Kernel_new_never_raises:
  "Kernel_new a1 a2 a3 a4 a5 a6 a7 a8 a9 a10 a11 a12 a13 a14 =
     Inr \<lparr>var1 = a1, nngp = a2, var2 = a3, ntk = a4, is_gaussian = a5, is_reversed = a6,
          marginal = cast_marginalisation a7, cross = cast_marginalisation a8,
          shape1 = a9, shape2 = a10, x1_is_x2 = a11, is_input = a12, mask1 = a13,
          mask2 = a14\<rparr>"
  by (simp add: Kernel_new_def)

theorem Kernel_new_never_raises_witness:
  "Kernel_new (PArray \<lparr>shape = [2], elems = digits\<rparr>)
      (PArray \<lparr>shape = [2, 2], elems = digits\<rparr>) PNone
      (PArray \<lparr>shape = [3, 7, 1], elems = digits\<rparr>) (PStr ''yes'') (PBool True)
      (PEnum OVER_ALL) (PInt 9) (PTuple [PInt 2, PInt 7]) PNone (PObj 0) (PFloat 1)
      (PArray \<lparr>shape = [5], elems = digits\<rparr>) (PTuple [])
   = Inr \<lparr>var1 = PArray \<lparr>shape = [2], elems = digits\<rparr>,
          nngp = PArray \<lparr>shape = [2, 2], elems = digits\<rparr>, var2 = PNone,
          ntk = PArray \<lparr>shape = [3, 7, 1], elems = digits\<rparr>,
          is_gaussian = PStr ''yes'', is_reversed = PBool True,
          marginal = PInt 0, cross = PInt 9,
          shape1 = PTuple [PInt 2, PInt 7], shape2 = PNone, x1_is_x2 = PObj 0,
          is_input = PFloat 1, mask1 = PArray \<lparr>shape = [5], elems = digits\<rparr>,
          mask2 = PTuple []\<rparr>"
  using Kernel_new_never_raises
    [of "PArray \<lparr>shape = [2], elems = digits\<rparr>" "PArray \<lparr>shape = [2, 2], elems = digits\<rparr>"
      PNone "PArray \<lparr>shape = [3, 7, 1], elems = digits\<rparr>" "PStr ''yes''" "PBool True"
      "PEnum OVER_ALL" "PInt 9" "PTuple [PInt 2, PInt 7]" PNone "PObj 0" "PFloat 1"
      "PArray \<lparr>shape = [5], elems = digits\<rparr>" "PTuple []"]
  by simp

text \<open>
  C1: a member of the enumeration or the number of a member (\<open>ordinal v = Some i\<close>),
  passed as \<^verbatim>\<open>marginal\<close> or \<^verbatim>\<open>cross\<close> to \<^verbatim>\<open>Kernel.__new__\<close> or to
  \<^verbatim>\<open>Kernel._replace\<close>, is stored as the plain integer \<open>i\<close>, which is what reading
  the field gives. No operation of the module puts a member of the enumeration into
  these two fields: \<^verbatim>\<open>__new__\<close> returns a record with plain ordinals, and
  \<^verbatim>\<open>_replace\<close> and \<^verbatim>\<open>reverse\<close> keep them plain.
\<close>

theorem marginal_cross_stored_as_ordinals:
  assumes "ordinal v = Some i" and "ordinal w = Some j"
  shows "(\<exists>k. Kernel_new a1 a2 a3 a4 a5 a6 v w a9 a10 a11 a12 a13 a14 = Inr k
            \<and> marginal k = PInt i \<and> cross k = PInt j \<and> plain_ordinals k)
     \<and> (set (map fst kws) \<subseteq> set field_names \<and> map_of kws ''marginal'' = Some v
          \<longrightarrow> (\<exists>k. Kernel_replace self kws = Inr k \<and> marginal k = PInt i))
     \<and> (set (map fst kws) \<subseteq> set field_names \<and> map_of kws ''cross'' = Some w
          \<longrightarrow> (\<exists>k. Kernel_replace self kws = Inr k \<and> cross k = PInt j))
     \<and> (\<forall>k. Kernel_new a1 a2 a3 a4 a5 a6 a7 a8 a9 a10 a11 a12 a13 a14 = Inr k
          \<longrightarrow> plain_ordinals k)
     \<and> (\<forall>k. plain_ordinals self \<and> Kernel_replace self kws = Inr k \<longrightarrow> plain_ordinals k)
     \<and> (\<forall>k. plain_ordinals self \<and> reverse rz self = Inr k \<longrightarrow> plain_ordinals k)"
proof (intro conjI impI allI)
  show "\<exists>k. Kernel_new a1 a2 a3 a4 a5 a6 v w a9 a10 a11 a12 a13 a14 = Inr k
      \<and> marginal k = PInt i \<and> cross k = PInt j \<and> plain_ordinals k"
    using assms by (simp add: Kernel_new_def cast_ordinal plain_ordinals_def)
next
  assume a: "set (map fst kws) \<subseteq> set field_names \<and> map_of kws ''marginal'' = Some v"
  then obtain k where k: "Kernel_replace self kws = Inr k"
    using Kernel_replace_valid [of kws self] by blast
  from Kernel_replace_sel(7) [OF k] a assms(1) have "marginal k = PInt i"
    by (simp add: cast_ordinal)
  with k show "\<exists>k. Kernel_replace self kws = Inr k \<and> marginal k = PInt i"
    by blast
next
  assume a: "set (map fst kws) \<subseteq> set field_names \<and> map_of kws ''cross'' = Some w"
  then obtain k where k: "Kernel_replace self kws = Inr k"
    using Kernel_replace_valid [of kws self] by blast
  from Kernel_replace_sel(8) [OF k] a assms(2) have "cross k = PInt j"
    by (simp add: cast_ordinal)
  with k show "\<exists>k. Kernel_replace self kws = Inr k \<and> cross k = PInt j"
    by blast
next
  fix k assume "Kernel_new a1 a2 a3 a4 a5 a6 a7 a8 a9 a10 a11 a12 a13 a14 = Inr k"
  then show "plain_ordinals k" by (rule Kernel_new_plain)
next
  fix k assume "plain_ordinals self \<and> Kernel_replace self kws = Inr k"
  then show "plain_ordinals k" using Kernel_replace_plain by blast
next
  fix k assume "plain_ordinals self \<and> reverse rz self = Inr k"
  then show "plain_ordinals k" using reverse_plain by blast
qed

theorem marginal_cross_stored_as_ordinals_witness:
  "ordinal (PEnum OVER_POINTS) = Some 3 \<and> ordinal (PInt 4) = Some 4
   \<and> (\<exists>k. Kernel_new PNone PNone PNone PNone (PBool True) (PBool False)
              (PEnum OVER_POINTS) (PInt 4) PNone PNone (PBool True) (PBool False) PNone PNone
            = Inr k \<and> marginal k = PInt 3 \<and> cross k = PInt 4 \<and> plain_ordinals k)
   \<and> (\<exists>k. Kernel_replace example_flat
              [(''cross'', PInt 4), (''marginal'', PEnum OVER_POINTS)] = Inr k
            \<and> marginal k = PInt 3)
   \<and> (\<exists>k. Kernel_replace example_flat
              [(''cross'', PInt 4), (''marginal'', PEnum OVER_POINTS)] = Inr k
            \<and> cross k = PInt 4)"
proof -
  have o: "ordinal (PEnum OVER_POINTS) = Some 3" "ordinal (PInt 4) = Some 4"
    by simp_all
  have n: "set (map fst [(''cross'', PInt 4), (''marginal'', PEnum OVER_POINTS)])
      \<subseteq> set field_names"
    by (simp add: field_names_def)
  have m: "map_of [(''cross'', PInt 4), (''marginal'', PEnum OVER_POINTS)] ''marginal''
      = Some (PEnum OVER_POINTS)"
    "map_of [(''cross'', PInt 4), (''marginal'', PEnum OVER_POINTS)] ''cross'' = Some (PInt 4)"
    by simp_all
  from marginal_cross_stored_as_ordinals [OF o,
      of PNone PNone PNone PNone "PBool True" "PBool False" PNone PNone "PBool True"
        "PBool False" PNone PNone "[(''cross'', PInt 4), (''marginal'', PEnum OVER_POINTS)]"
        example_flat] n m o
  show ?thesis by blast
qed

text \<open>
  C10: a value that is not a member of the enumeration (an integer outside 0..4, a
  float, any other object), passed as \<^verbatim>\<open>marginal\<close> or \<^verbatim>\<open>cross\<close> to
  \<^verbatim>\<open>Kernel.__new__\<close> or to \<^verbatim>\<open>Kernel._replace\<close>, is stored as it is: the call
  returns and the field holds that value.
\<close>

theorem other_values_stored_as_given:
  assumes "\<not> isinstance_Marginalisation v"
  shows "(\<exists>k. Kernel_new a1 a2 a3 a4 a5 a6 v a8 a9 a10 a11 a12 a13 a14 = Inr k
            \<and> marginal k = v)
     \<and> (\<exists>k. Kernel_new a1 a2 a3 a4 a5 a6 a7 v a9 a10 a11 a12 a13 a14 = Inr k \<and> cross k = v)
     \<and> (set (map fst kws) \<subseteq> set field_names \<and> map_of kws ''marginal'' = Some v
          \<longrightarrow> (\<exists>k. Kernel_replace self kws = Inr k \<and> marginal k = v))
     \<and> (set (map fst kws) \<subseteq> set field_names \<and> map_of kws ''cross'' = Some v
          \<longrightarrow> (\<exists>k. Kernel_replace self kws = Inr k \<and> cross k = v))"
proof (intro conjI impI)
  show "\<exists>k. Kernel_new a1 a2 a3 a4 a5 a6 v a8 a9 a10 a11 a12 a13 a14 = Inr k \<and> marginal k = v"
    using assms by (simp add: Kernel_new_def cast_plain)
  show "\<exists>k. Kernel_new a1 a2 a3 a4 a5 a6 a7 v a9 a10 a11 a12 a13 a14 = Inr k \<and> cross k = v"
    using assms by (simp add: Kernel_new_def cast_plain)
next
  assume a: "set (map fst kws) \<subseteq> set field_names \<and> map_of kws ''marginal'' = Some v"
  then obtain k where k: "Kernel_replace self kws = Inr k"
    using Kernel_replace_valid [of kws self] by blast
  from Kernel_replace_sel(7) [OF k] a assms have "marginal k = v"
    by (simp add: cast_plain)
  with k show "\<exists>k. Kernel_replace self kws = Inr k \<and> marginal k = v"
    by blast
next
  assume a: "set (map fst kws) \<subseteq> set field_names \<and> map_of kws ''cross'' = Some v"
  then obtain k where k: "Kernel_replace self kws = Inr k"
    using Kernel_replace_valid [of kws self] by blast
  from Kernel_replace_sel(8) [OF k] a assms have "cross k = v"
    by (simp add: cast_plain)
  with k show "\<exists>k. Kernel_replace self kws = Inr k \<and> cross k = v"
    by blast
qed

theorem other_values_stored_as_given_witness:
  "\<not> isinstance_Marginalisation (PInt 17)
   \<and> (\<exists>k. Kernel_new PNone PNone PNone PNone (PBool True) (PBool False)
              (PInt 17) (PFloat (5 / 2)) PNone PNone (PBool True) (PBool False) PNone PNone
            = Inr k \<and> marginal k = PInt 17)
   \<and> (\<exists>k. Kernel_new PNone PNone PNone PNone (PBool True) (PBool False)
              (PObj 1) (PInt 17) PNone PNone (PBool True) (PBool False) PNone PNone
            = Inr k \<and> cross k = PInt 17)
   \<and> (\<exists>k. Kernel_replace example_flat [(''marginal'', PInt 17)] = Inr k
            \<and> marginal k = PInt 17)"
proof -
  have o: "\<not> isinstance_Marginalisation (PInt 17)"
    by simp
  have n: "set (map fst [(''marginal'', PInt 17)]) \<subseteq> set field_names"
    by (simp add: field_names_def)
  have m: "map_of [(''marginal'', PInt 17)] ''marginal'' = Some (PInt 17)"
    by simp
  from other_values_stored_as_given [OF o,
      of PNone PNone PNone PNone "PBool True" "PBool False" "PFloat (5 / 2)" PNone PNone
        "PBool True" "PBool False" PNone PNone "PObj 1" "[(''marginal'', PInt 17)]"
        example_flat] n m o
  show ?thesis by blast
qed

section \<open>Replacement\<close>

text \<open>
  C9: the cast of \<^verbatim>\<open>Kernel._replace\<close> goes by the value, not by the field name: a
  member of the enumeration given for any field \<open>n\<close> is stored as its number, so
  \<^verbatim>\<open>_replace(is_gaussian=Marginalisation.NO)\<close> stores the integer 4; whereas
  \<^verbatim>\<open>Kernel.__new__\<close> casts \<^verbatim>\<open>marginal\<close> and \<^verbatim>\<open>cross\<close> only and stores a member
  given for any of the other twelve fields as the member.
\<close>

theorem replace_casts_by_value:
  "(n \<in> set field_names \<and> set (map fst kws) \<subseteq> set field_names
      \<and> map_of kws n = Some (PEnum m)
      \<longrightarrow> (\<exists>k. Kernel_replace self kws = Inr k \<and> field k n = Some (PInt (int_of m))))
   \<and> Kernel_replace self [(''is_gaussian'', PEnum NO)] = Inr (self\<lparr>is_gaussian := PInt 4\<rparr>)
   \<and> Kernel_new (PEnum m) (PEnum m) (PEnum m) (PEnum m) (PEnum m) (PEnum m) (PEnum m)
        (PEnum m) (PEnum m) (PEnum m) (PEnum m) (PEnum m) (PEnum m) (PEnum m)
      = Inr \<lparr>var1 = PEnum m, nngp = PEnum m, var2 = PEnum m, ntk = PEnum m,
             is_gaussian = PEnum m, is_reversed = PEnum m,
             marginal = PInt (int_of m), cross = PInt (int_of m),
             shape1 = PEnum m, shape2 = PEnum m, x1_is_x2 = PEnum m, is_input = PEnum m,
             mask1 = PEnum m, mask2 = PEnum m\<rparr>"
proof (intro conjI impI)
  assume a: "n \<in> set field_names \<and> set (map fst kws) \<subseteq> set field_names
      \<and> map_of kws n = Some (PEnum m)"
  then obtain k where k: "Kernel_replace self kws = Inr k"
    using Kernel_replace_valid [of kws self] by blast
  from a have "n \<in> set field_names" by simp
  from Kernel_replace_field [OF this k] a have "field k n = Some (PInt (int_of m))"
    by simp
  with k show "\<exists>k. Kernel_replace self kws = Inr k \<and> field k n = Some (PInt (int_of m))"
    by blast
next
  have v: "set (map fst [(''is_gaussian'', PEnum NO)]) \<subseteq> set field_names"
    by (simp add: field_names_def)
  from Kernel_replace_valid [OF v, of self]
  obtain k where k: "Kernel_replace self [(''is_gaussian'', PEnum NO)] = Inr k"
    by blast
  have "k = self\<lparr>is_gaussian := PInt 4\<rparr>"
    by (rule Kernel.equality) (simp_all add: Kernel_replace_sel [OF k])
  with k show "Kernel_replace self [(''is_gaussian'', PEnum NO)]
      = Inr (self\<lparr>is_gaussian := PInt 4\<rparr>)"
    by simp
next
  show "Kernel_new (PEnum m) (PEnum m) (PEnum m) (PEnum m) (PEnum m) (PEnum m) (PEnum m)
        (PEnum m) (PEnum m) (PEnum m) (PEnum m) (PEnum m) (PEnum m) (PEnum m)
      = Inr \<lparr>var1 = PEnum m, nngp = PEnum m, var2 = PEnum m, ntk = PEnum m,
             is_gaussian = PEnum m, is_reversed = PEnum m,
             marginal = PInt (int_of m), cross = PInt (int_of m),
             shape1 = PEnum m, shape2 = PEnum m, x1_is_x2 = PEnum m, is_input = PEnum m,
             mask1 = PEnum m, mask2 = PEnum m\<rparr>"
    by (simp add: Kernel_new_def)
qed

theorem replace_casts_by_value_witness:
  "''mask1'' \<in> set field_names
   \<and> set (map fst [(''shape2'', PInt 1), (''mask1'', PEnum OVER_PIXELS)]) \<subseteq> set field_names
   \<and> map_of [(''shape2'', PInt 1), (''mask1'', PEnum OVER_PIXELS)] ''mask1''
       = Some (PEnum OVER_PIXELS)
   \<and> (\<exists>k. Kernel_replace example_flat [(''shape2'', PInt 1), (''mask1'', PEnum OVER_PIXELS)]
            = Inr k \<and> field k ''mask1'' = Some (PInt 2))"
proof -
  have n: "''mask1'' \<in> set field_names"
    "set (map fst [(''shape2'', PInt 1), (''mask1'', PEnum OVER_PIXELS)]) \<subseteq> set field_names"
    by (simp_all add: field_names_def)
  have m: "map_of [(''shape2'', PInt 1), (''mask1'', PEnum OVER_PIXELS)] ''mask1''
       = Some (PEnum OVER_PIXELS)"
    by simp
  have i: "int_of OVER_PIXELS = 2"
    by simp
  from replace_casts_by_value [of "''mask1''"
      "[(''shape2'', PInt 1), (''mask1'', PEnum OVER_PIXELS)]" OVER_PIXELS example_flat]
    n m i
  show ?thesis by metis
qed

text \<open>
  C4: for a record \<open>self\<close> and overrides \<open>kws\<close> naming fields of the record,
  \<^verbatim>\<open>self._replace(**kws)\<close> returns a record that has, in every field that \<open>kws\<close>
  does not name, the value of \<open>self\<close>, and in every field that \<open>kws\<close> names, the
  given value, a member of the enumeration cast to its number. The result is a new
  tuple: on any heap that holds \<open>self\<close> at \<open>r\<close> the call returns another reference
  and \<open>r\<close> still holds \<open>self\<close>.
\<close>

theorem Kernel_replace_frame:
  assumes "set (map fst kws) \<subseteq> set field_names"
  shows "\<exists>k. Kernel_replace self kws = Inr k
      \<and> (\<forall>n \<in> set field_names.
            field k n = (case map_of kws n of Some v \<Rightarrow> Some (cast_marginalisation v)
                         | None \<Rightarrow> field self n))
      \<and> (\<forall>h r. r < length h \<and> h ! r = Tuple self \<longrightarrow>
            (\<exists>r' h'. perform rz h (Replace r kws) = (Inr r', h') \<and> r' \<noteq> r
               \<and> h' ! r' = Tuple k \<and> h' ! r = Tuple self))"
proof -
  from Kernel_replace_valid [OF assms, of self]
  obtain k where k: "Kernel_replace self kws = Inr k"
    by blast
  have f: "\<forall>n \<in> set field_names.
      field k n = (case map_of kws n of Some v \<Rightarrow> Some (cast_marginalisation v)
                   | None \<Rightarrow> field self n)"
    using Kernel_replace_field [OF _ k] by blast
  have p: "\<forall>h r. r < length h \<and> h ! r = Tuple self \<longrightarrow>
      (\<exists>r' h'. perform rz h (Replace r kws) = (Inr r', h') \<and> r' \<noteq> r
         \<and> h' ! r' = Tuple k \<and> h' ! r = Tuple self)"
  proof (intro allI impI)
    fix h :: heap and r
    assume a: "r < length h \<and> h ! r = Tuple self"
    then have "r < length h" "h ! r = Tuple self"
      by simp_all
    from Kernel_replace_h_refines [OF this, of kws] k obtain kw1 kw2 where
      "perform rz h (Replace r kws)
        = (Inr (length h + 2), h @ [Dict kw1, Dict kw2, Tuple k])"
      by auto
    moreover have "length h + 2 \<noteq> r"
      "(h @ [Dict kw1, Dict kw2, Tuple k]) ! (length h + 2) = Tuple k"
      "(h @ [Dict kw1, Dict kw2, Tuple k]) ! r = Tuple self"
      using a by (simp_all add: nth_append)
    ultimately show "\<exists>r' h'. perform rz h (Replace r kws) = (Inr r', h') \<and> r' \<noteq> r
         \<and> h' ! r' = Tuple k \<and> h' ! r = Tuple self"
      by blast
  qed
  from k f p show ?thesis by blast
qed

theorem Kernel_replace_frame_witness:
  "set (map fst [(''cross'', PEnum NO), (''is_input'', PBool False)]) \<subseteq> set field_names
   \<and> (\<exists>k. Kernel_replace example_flat [(''cross'', PEnum NO), (''is_input'', PBool False)]
            = Inr k
        \<and> field k ''cross'' = Some (PInt 4) \<and> field k ''is_input'' = Some (PBool False)
        \<and> field k ''marginal'' = field example_flat ''marginal''
        \<and> field k ''nngp'' = field example_flat ''nngp''
        \<and> (\<exists>r' h'. perform revert_zipped [Tuple example_kernel, Tuple example_flat]
                 (Replace 1 [(''cross'', PEnum NO), (''is_input'', PBool False)])
               = (Inr r', h')
             \<and> r' \<noteq> 1 \<and> h' ! r' = Tuple k \<and> h' ! 1 = Tuple example_flat))"
proof -
  let ?kws = "[(''cross'', PEnum NO), (''is_input'', PBool False)]"
  have v: "set (map fst ?kws) \<subseteq> set field_names"
    by (simp add: field_names_def)
  from Kernel_replace_frame [OF v, of example_flat revert_zipped]
  obtain k where k: "Kernel_replace example_flat ?kws = Inr k"
    and f: "\<forall>n \<in> set field_names.
       field k n = (case map_of ?kws n of Some v \<Rightarrow> Some (cast_marginalisation v)
                    | None \<Rightarrow> field example_flat n)"
    and p: "\<forall>h r. r < length h \<and> h ! r = Tuple example_flat \<longrightarrow>
       (\<exists>r' h'. perform revert_zipped h (Replace r ?kws) = (Inr r', h') \<and> r' \<noteq> r
          \<and> h' ! r' = Tuple k \<and> h' ! r = Tuple example_flat)"
    by blast
  have n: "''cross'' \<in> set field_names" "''is_input'' \<in> set field_names"
    "''marginal'' \<in> set field_names" "''nngp'' \<in> set field_names"
    by (simp_all add: field_names_def)
  have "field k ''cross'' = Some (PInt 4)" "field k ''is_input'' = Some (PBool False)"
    "field k ''marginal'' = field example_flat ''marginal''"
    "field k ''nngp'' = field example_flat ''nngp''"
    using f [rule_format, OF n(1)] f [rule_format, OF n(2)] f [rule_format, OF n(3)]
      f [rule_format, OF n(4)]
    by simp_all
  moreover have "\<exists>r' h'. perform revert_zipped [Tuple example_kernel, Tuple example_flat]
        (Replace 1 ?kws) = (Inr r', h') \<and> r' \<noteq> 1 \<and> h' ! r' = Tuple k
      \<and> h' ! 1 = Tuple example_flat"
    using p [rule_format, of 1 "[Tuple example_kernel, Tuple example_flat]"] by simp
  ultimately show ?thesis using v k by blast
qed

section \<open>Reversal\<close>

text \<open>
  C3: \<^verbatim>\<open>k.reverse()\<close> returns a record in which \<^verbatim>\<open>var1\<close>, \<^verbatim>\<open>nngp\<close>,
  \<^verbatim>\<open>var2\<close> and \<^verbatim>\<open>ntk\<close> are what the helper returns for them with
  \<^verbatim>\<open>k.shape1\<close>, \<^verbatim>\<open>is_reversed\<close> is the negation of the boolean
  \<^verbatim>\<open>k.is_reversed\<close>, and the other nine fields are those of \<open>k\<close>. The helper is any
  function that returns for the four fields (a call that raises ends \<^verbatim>\<open>reverse\<close>) and
  returns arrays, not members of the enumeration. The instance after it takes the helper
  of the specification on a record with the axis pairs \<open>(H,H),(W,W)\<close>: the four arrays
  come back with the pairs \<open>(W,W),(H,H)\<close>, and the flag goes from \<open>False\<close> to \<open>True\<close>
  and from \<open>True\<close> to \<open>False\<close>.
\<close>

theorem reverse_frame:
  assumes "rz (var1 k) (shape1 k) = Inr v1" and "rz (nngp k) (shape1 k) = Inr v2"
    and "rz (var2 k) (shape1 k) = Inr v3" and "rz (ntk k) (shape1 k) = Inr v4"
    and "\<not> isinstance_Marginalisation v1" and "\<not> isinstance_Marginalisation v2"
    and "\<not> isinstance_Marginalisation v3" and "\<not> isinstance_Marginalisation v4"
    and "is_reversed k = PBool b"
  shows "\<exists>k'. reverse rz k = Inr k'
      \<and> var1 k' = v1 \<and> nngp k' = v2 \<and> var2 k' = v3 \<and> ntk k' = v4
      \<and> is_reversed k' = PBool (\<not> b)
      \<and> is_gaussian k' = is_gaussian k \<and> marginal k' = marginal k \<and> cross k' = cross k
      \<and> shape1 k' = shape1 k \<and> shape2 k' = shape2 k \<and> x1_is_x2 k' = x1_is_x2 k
      \<and> is_input k' = is_input k \<and> mask1 k' = mask1 k \<and> mask2 k' = mask2 k"
proof -
  have t: "truth (is_reversed k) = Inr b"
    by (simp add: assms(9))
  from reverse_returns [of rz k, OF assms(1-4) t] assms(5-8) show ?thesis
    by (simp add: cast_plain)
qed

theorem reverse_frame_witness:
  "(\<exists>k'. reverse revert_zipped example_kernel = Inr k'
      \<and> var1 k' = PArray \<lparr>shape = [2, 5, 5, 3, 3],
                           elems = (\<lambda>idx. digits (revert_axes 2 idx))\<rparr>
      \<and> nngp k' = PArray \<lparr>shape = [2, 2, 5, 5, 3, 3],
                           elems = (\<lambda>idx. digits (revert_axes 2 idx))\<rparr>
      \<and> var2 k' = PArray \<lparr>shape = [2, 5, 5, 3, 3],
                           elems = (\<lambda>idx. digits (revert_axes 2 idx))\<rparr>
      \<and> ntk k' = PArray \<lparr>shape = [2, 2, 5, 5, 3, 3],
                          elems = (\<lambda>idx. digits (revert_axes 2 idx))\<rparr>
      \<and> var1 k' \<noteq> var1 example_kernel \<and> nngp k' \<noteq> nngp example_kernel
      \<and> is_reversed k' = PBool True
      \<and> is_gaussian k' = PBool True \<and> marginal k' = PInt 3 \<and> cross k' = PInt 4
      \<and> shape1 k' = PTuple [PInt 2, PInt 3, PInt 5, PInt 1]
      \<and> shape2 k' = PTuple [PInt 2, PInt 3, PInt 5, PInt 1]
      \<and> x1_is_x2 k' = PBool True \<and> is_input k' = PBool False
      \<and> mask1 k' = PNone \<and> mask2 k' = PNone)
   \<and> (\<exists>k'. reverse revert_zipped (example_kernel\<lparr>is_reversed := PBool True\<rparr>) = Inr k'
      \<and> var1 k' = PArray \<lparr>shape = [2, 5, 5, 3, 3],
                           elems = (\<lambda>idx. digits (revert_axes 2 idx))\<rparr>
      \<and> is_reversed k' = PBool False)"
proof -
  let ?v = "PArray \<lparr>shape = [2, 5, 5, 3, 3], elems = (\<lambda>idx. digits (revert_axes 2 idx))\<rparr>"
  let ?c = "PArray \<lparr>shape = [2, 2, 5, 5, 3, 3], elems = (\<lambda>idx. digits (revert_axes 2 idx))\<rparr>"
  let ?k = "example_kernel\<lparr>is_reversed := PBool True\<rparr>"
  have h: "revert_zipped (var1 example_kernel) (shape1 example_kernel) = Inr ?v"
    "revert_zipped (nngp example_kernel) (shape1 example_kernel) = Inr ?c"
    "revert_zipped (var2 example_kernel) (shape1 example_kernel) = Inr ?v"
    "revert_zipped (ntk example_kernel) (shape1 example_kernel) = Inr ?c"
    by (simp_all add: example_kernel_def revert_axes_def numeral_2_eq_2)
  have h': "revert_zipped (var1 ?k) (shape1 ?k) = Inr ?v"
    "revert_zipped (nngp ?k) (shape1 ?k) = Inr ?c"
    "revert_zipped (var2 ?k) (shape1 ?k) = Inr ?v"
    "revert_zipped (ntk ?k) (shape1 ?k) = Inr ?c"
    using h by simp_all
  have i: "\<not> isinstance_Marginalisation ?v" "\<not> isinstance_Marginalisation ?c"
    by simp_all
  have f: "is_reversed example_kernel = PBool False" "is_reversed ?k = PBool True"
    by (simp_all add: example_kernel_def)
  have d: "?v \<noteq> var1 example_kernel" "?c \<noteq> nngp example_kernel"
    by (simp_all add: example_kernel_def)
  have e: "is_gaussian example_kernel = PBool True" "marginal example_kernel = PInt 3"
    "cross example_kernel = PInt 4"
    "shape1 example_kernel = PTuple [PInt 2, PInt 3, PInt 5, PInt 1]"
    "shape2 example_kernel = PTuple [PInt 2, PInt 3, PInt 5, PInt 1]"
    "x1_is_x2 example_kernel = PBool True" "is_input example_kernel = PBool False"
    "mask1 example_kernel = PNone" "mask2 example_kernel = PNone"
    by (simp_all add: example_kernel_def)
  from reverse_frame [of revert_zipped example_kernel, OF h i(1) i(2) i(1) i(2) f(1)]
  obtain k1 where k1: "reverse revert_zipped example_kernel = Inr k1"
    "var1 k1 = ?v" "nngp k1 = ?c" "var2 k1 = ?v" "ntk k1 = ?c"
    "is_reversed k1 = PBool (\<not> False)"
    "is_gaussian k1 = is_gaussian example_kernel" "marginal k1 = marginal example_kernel"
    "cross k1 = cross example_kernel" "shape1 k1 = shape1 example_kernel"
    "shape2 k1 = shape2 example_kernel" "x1_is_x2 k1 = x1_is_x2 example_kernel"
    "is_input k1 = is_input example_kernel" "mask1 k1 = mask1 example_kernel"
    "mask2 k1 = mask2 example_kernel"
    by blast
  from reverse_frame [of revert_zipped ?k, OF h' i(1) i(2) i(1) i(2) f(2)]
  obtain k2 where k2: "reverse revert_zipped ?k = Inr k2" "var1 k2 = ?v"
    "is_reversed k2 = PBool (\<not> True)"
    by blast
  have 1: "\<exists>k'. reverse revert_zipped example_kernel = Inr k'
      \<and> var1 k' = ?v \<and> nngp k' = ?c \<and> var2 k' = ?v \<and> ntk k' = ?c
      \<and> var1 k' \<noteq> var1 example_kernel \<and> nngp k' \<noteq> nngp example_kernel
      \<and> is_reversed k' = PBool True
      \<and> is_gaussian k' = PBool True \<and> marginal k' = PInt 3 \<and> cross k' = PInt 4
      \<and> shape1 k' = PTuple [PInt 2, PInt 3, PInt 5, PInt 1]
      \<and> shape2 k' = PTuple [PInt 2, PInt 3, PInt 5, PInt 1]
      \<and> x1_is_x2 k' = PBool True \<and> is_input k' = PBool False
      \<and> mask1 k' = PNone \<and> mask2 k' = PNone"
    using d by (intro exI [of _ k1]) (simp only: k1 e simp_thms)
  have 2: "\<exists>k'. reverse revert_zipped ?k = Inr k' \<and> var1 k' = ?v
      \<and> is_reversed k' = PBool False"
    by (intro exI [of _ k2]) (simp only: k2 simp_thms)
  from 1 2 show ?thesis by (rule conjI)
qed

text \<open>
  C2: reversal is an involution. For a record \<open>k\<close> whose four covariance fields are
  arrays with the axis pairs that \<^verbatim>\<open>shape1\<close> asks for (at least
  \<open>2 * (length sh - 2)\<close> axes each) and whose \<^verbatim>\<open>is_reversed\<close> is a boolean,
  \<^verbatim>\<open>k.reverse().reverse()\<close> returns and equals \<open>k\<close> in \<^verbatim>\<open>var1\<close>, \<^verbatim>\<open>nngp\<close>,
  \<^verbatim>\<open>var2\<close>, \<^verbatim>\<open>ntk\<close> and \<^verbatim>\<open>is_reversed\<close> (in fact in every field), while the
  record in between has the flag negated. The values of \<^verbatim>\<open>marginal\<close> and
  \<^verbatim>\<open>cross\<close> play no part, so the layouts at \<^verbatim>\<open>OVER_POINTS\<close>/\<^verbatim>\<open>NO\<close> are
  covered. The helper is \<^const>\<open>revert_zipped\<close>, as the specification describes it.
\<close>

theorem reverse_involution:
  assumes "shape1 k = PTuple sh"
    and "zipped (length sh - 2) (var1 k)" and "zipped (length sh - 2) (nngp k)"
    and "zipped (length sh - 2) (var2 k)" and "zipped (length sh - 2) (ntk k)"
    and "is_reversed k = PBool b"
  shows "\<exists>k1 k2. reverse revert_zipped k = Inr k1 \<and> reverse revert_zipped k1 = Inr k2
      \<and> var1 k2 = var1 k \<and> nngp k2 = nngp k \<and> var2 k2 = var2 k \<and> ntk k2 = ntk k
      \<and> is_reversed k2 = is_reversed k \<and> is_reversed k1 = PBool (\<not> b) \<and> k2 = k"
proof -
  from revert_zipped_twice [OF assms(2)] obtain v1 where
    v1: "revert_zipped (var1 k) (PTuple sh) = Inr v1" "\<not> isinstance_Marginalisation v1"
      "revert_zipped v1 (PTuple sh) = Inr (var1 k)"
    by blast
  from revert_zipped_twice [OF assms(3)] obtain v2 where
    v2: "revert_zipped (nngp k) (PTuple sh) = Inr v2" "\<not> isinstance_Marginalisation v2"
      "revert_zipped v2 (PTuple sh) = Inr (nngp k)"
    by blast
  from revert_zipped_twice [OF assms(4)] obtain v3 where
    v3: "revert_zipped (var2 k) (PTuple sh) = Inr v3" "\<not> isinstance_Marginalisation v3"
      "revert_zipped v3 (PTuple sh) = Inr (var2 k)"
    by blast
  from revert_zipped_twice [OF assms(5)] obtain v4 where
    v4: "revert_zipped (ntk k) (PTuple sh) = Inr v4" "\<not> isinstance_Marginalisation v4"
      "revert_zipped v4 (PTuple sh) = Inr (ntk k)"
    by blast
  define k1 where "k1 = k\<lparr>var1 := v1, nngp := v2, var2 := v3, ntk := v4,
      is_reversed := PBool (\<not> b)\<rparr>"
  have t: "truth (is_reversed k) = Inr b"
    by (simp add: assms(6))
  have r1: "reverse revert_zipped k = Inr k1"
    using reverse_returns [of revert_zipped k v1 v2 v3 v4 b] v1 v2 v3 v4 t
    by (simp add: assms(1) k1_def cast_plain)
  have s1: "shape1 k1 = PTuple sh" "var1 k1 = v1" "nngp k1 = v2" "var2 k1 = v3"
    "ntk k1 = v4" "truth (is_reversed k1) = Inr (\<not> b)"
    by (simp_all add: k1_def assms(1))
  have p: "cast_marginalisation (var1 k) = var1 k" "cast_marginalisation (nngp k) = nngp k"
    "cast_marginalisation (var2 k) = var2 k" "cast_marginalisation (ntk k) = ntk k"
    using assms(2-5) by (simp_all add: cast_plain zipped_not_instance)
  have "reverse revert_zipped k1 =
      Inr (k1\<lparr>var1 := var1 k, nngp := nngp k, var2 := var2 k, ntk := ntk k,
             is_reversed := PBool b\<rparr>)"
    using reverse_returns [of revert_zipped k1 "var1 k" "nngp k" "var2 k" "ntk k" "\<not> b"]
      v1(3) v2(3) v3(3) v4(3)
    by (simp add: s1 p)
  also have "k1\<lparr>var1 := var1 k, nngp := nngp k, var2 := var2 k, ntk := ntk k,
             is_reversed := PBool b\<rparr> = k"
    by (simp add: k1_def assms(6) [symmetric])
  finally have r2: "reverse revert_zipped k1 = Inr k" .
  have "is_reversed k1 = PBool (\<not> b)"
    by (simp add: k1_def)
  with r1 r2 show ?thesis by simp
qed

theorem reverse_involution_witness:
  "shape1 example_kernel = PTuple [PInt 2, PInt 3, PInt 5, PInt 1]
   \<and> zipped 2 (var1 example_kernel) \<and> zipped 2 (nngp example_kernel)
   \<and> zipped 2 (var2 example_kernel) \<and> zipped 2 (ntk example_kernel)
   \<and> is_reversed example_kernel = PBool False
   \<and> (\<exists>k1 k2. reverse revert_zipped example_kernel = Inr k1
         \<and> reverse revert_zipped k1 = Inr k2
         \<and> var1 k2 = var1 example_kernel \<and> nngp k2 = nngp example_kernel
         \<and> var2 k2 = var2 example_kernel \<and> ntk k2 = ntk example_kernel
         \<and> is_reversed k2 = is_reversed example_kernel \<and> is_reversed k1 = PBool True
         \<and> k2 = example_kernel)"
proof -
  have s: "shape1 example_kernel = PTuple [PInt 2, PInt 3, PInt 5, PInt 1]"
    by (simp add: example_kernel_def)
  have n: "length [PInt 2, PInt 3, PInt 5, PInt 1] - 2 = (2::nat)"
    by simp
  have z: "zipped 2 (var1 example_kernel)" "zipped 2 (nngp example_kernel)"
    "zipped 2 (var2 example_kernel)" "zipped 2 (ntk example_kernel)"
    by (simp_all add: example_kernel_def)
  have f: "is_reversed example_kernel = PBool False"
    by (simp add: example_kernel_def)
  from reverse_involution [OF s, unfolded n, OF z f] s z f show ?thesis
    by simp
qed

text \<open>
  C7: for a record \<open>k\<close> whose \<^verbatim>\<open>shape1\<close> has no spatial dimension (a batch axis and
  a channel axis at most) and whose \<^verbatim>\<open>is_reversed\<close> is a boolean, every record that
  \<^verbatim>\<open>k.reverse()\<close> returns has the \<^verbatim>\<open>var1\<close>, \<^verbatim>\<open>nngp\<close>, \<^verbatim>\<open>var2\<close> and
  \<^verbatim>\<open>ntk\<close> of \<open>k\<close> and the flag negated; and the call does return when each of the
  four fields is an array or \<^verbatim>\<open>None\<close>. The helper is \<^const>\<open>revert_zipped\<close>, as the
  specification describes it.
\<close>

theorem reverse_without_spatial_axes:
  assumes "shape1 k = PTuple sh" and "length sh \<le> 2" and "is_reversed k = PBool b"
  shows "(\<forall>k'. reverse revert_zipped k = Inr k' \<longrightarrow>
            var1 k' = var1 k \<and> nngp k' = nngp k \<and> var2 k' = var2 k \<and> ntk k' = ntk k
            \<and> is_reversed k' = PBool (\<not> b))
     \<and> (array_or_None (var1 k) \<and> array_or_None (nngp k) \<and> array_or_None (var2 k)
          \<and> array_or_None (ntk k)
        \<longrightarrow> (\<exists>k'. reverse revert_zipped k = Inr k'
               \<and> var1 k' = var1 k \<and> nngp k' = nngp k \<and> var2 k' = var2 k \<and> ntk k' = ntk k
               \<and> is_reversed k' = PBool (\<not> b)))"
proof -
  have n: "length sh - 2 = 0"
    using assms(2) by simp
  have z: "v = mat \<and> \<not> isinstance_Marginalisation mat"
    if "revert_zipped mat (PTuple sh) = Inr v" for mat v
    using that n by (cases mat) (auto simp: revert_axes_none)
  have a: "revert_zipped mat (PTuple sh) = Inr mat" if "array_or_None mat" for mat
    using that n by (cases mat) (simp_all add: revert_axes_none)
  have t: "truth (is_reversed k) = Inr b"
    by (simp add: assms(3))
  have 1: "var1 k' = var1 k \<and> nngp k' = nngp k \<and> var2 k' = var2 k \<and> ntk k' = ntk k
      \<and> is_reversed k' = PBool (\<not> b)" if r: "reverse revert_zipped k = Inr k'" for k'
  proof -
    from reverse_inversion [OF r] obtain v1 v2 v3 v4 b' where
      v: "revert_zipped (var1 k) (shape1 k) = Inr v1"
      "revert_zipped (nngp k) (shape1 k) = Inr v2"
      "revert_zipped (var2 k) (shape1 k) = Inr v3"
      "revert_zipped (ntk k) (shape1 k) = Inr v4"
      by blast
    from v z have e: "v1 = var1 k" "v2 = nngp k" "v3 = var2 k" "v4 = ntk k"
      "\<not> isinstance_Marginalisation (var1 k)" "\<not> isinstance_Marginalisation (nngp k)"
      "\<not> isinstance_Marginalisation (var2 k)" "\<not> isinstance_Marginalisation (ntk k)"
      unfolding assms(1) by blast+
    from reverse_returns [of revert_zipped k, OF v t] r e show ?thesis
      by (simp add: cast_plain)
  qed
  have 2: "\<exists>k'. reverse revert_zipped k = Inr k'"
    if "array_or_None (var1 k) \<and> array_or_None (nngp k) \<and> array_or_None (var2 k)
          \<and> array_or_None (ntk k)"
  proof -
    from that a have "revert_zipped (var1 k) (shape1 k) = Inr (var1 k)"
      "revert_zipped (nngp k) (shape1 k) = Inr (nngp k)"
      "revert_zipped (var2 k) (shape1 k) = Inr (var2 k)"
      "revert_zipped (ntk k) (shape1 k) = Inr (ntk k)"
      unfolding assms(1) by blast+
    from reverse_returns [of revert_zipped k, OF this t] show ?thesis
      by blast
  qed
  from 1 2 show ?thesis by blast
qed

theorem reverse_without_spatial_axes_witness:
  "shape1 example_flat = PTuple [PInt 2, PInt 7] \<and> length [PInt 2, PInt 7] \<le> 2
   \<and> is_reversed example_flat = PBool False
   \<and> array_or_None (var1 example_flat) \<and> array_or_None (nngp example_flat)
   \<and> array_or_None (var2 example_flat) \<and> array_or_None (ntk example_flat)
   \<and> (\<exists>k'. reverse revert_zipped example_flat = Inr k'
         \<and> var1 k' = var1 example_flat \<and> nngp k' = nngp example_flat
         \<and> var2 k' = var2 example_flat \<and> ntk k' = ntk example_flat
         \<and> is_reversed k' = PBool True)
   \<and> (\<exists>k'. reverse revert_zipped (example_flat\<lparr>var2 := PNone, is_reversed := PBool True\<rparr>)
           = Inr k'
         \<and> var1 k' = var1 example_flat \<and> nngp k' = nngp example_flat
         \<and> var2 k' = PNone \<and> ntk k' = ntk example_flat
         \<and> is_reversed k' = PBool False)"
proof -
  let ?k = "example_flat\<lparr>var2 := PNone, is_reversed := PBool True\<rparr>"
  have s: "shape1 example_flat = PTuple [PInt 2, PInt 7]"
    "shape1 ?k = PTuple [PInt 2, PInt 7]"
    by (simp_all add: example_flat_def)
  have l: "length [PInt 2, PInt 7] \<le> 2"
    by simp
  have f: "is_reversed example_flat = PBool False" "is_reversed ?k = PBool True"
    by (simp_all add: example_flat_def)
  have a: "array_or_None (var1 example_flat) \<and> array_or_None (nngp example_flat)
      \<and> array_or_None (var2 example_flat) \<and> array_or_None (ntk example_flat)"
    by (simp add: example_flat_def)
  have a': "array_or_None (var1 ?k) \<and> array_or_None (nngp ?k) \<and> array_or_None (var2 ?k)
      \<and> array_or_None (ntk ?k)"
    by (simp add: example_flat_def)
  from reverse_without_spatial_axes [OF s(1) l f(1)] a
  have 1: "\<exists>k'. reverse revert_zipped example_flat = Inr k'
      \<and> var1 k' = var1 example_flat \<and> nngp k' = nngp example_flat
      \<and> var2 k' = var2 example_flat \<and> ntk k' = ntk example_flat
      \<and> is_reversed k' = PBool True"
    by simp
  from reverse_without_spatial_axes [OF s(2) l f(2)] a'
  have 2: "\<exists>k'. reverse revert_zipped ?k = Inr k'
      \<and> var1 k' = var1 example_flat \<and> nngp k' = nngp example_flat
      \<and> var2 k' = PNone \<and> ntk k' = ntk example_flat
      \<and> is_reversed k' = PBool False"
    by simp
  from s(1) l f(1) a 1 2 show ?thesis by blast
qed

section \<open>Immutability\<close>

text \<open>
  C8: no operation of the module changes a record that exists. The only writes are
  into the dictionaries that the calls themselves build (the loop of
  \<^verbatim>\<open>Kernel._replace\<close>, the \<^verbatim>\<open>pop\<close> calls of \<^verbatim>\<open>namedtuple._replace\<close>). So
  whatever sequence \<open>cs\<close> of constructions, replacements and reversals runs on a heap
  \<open>h\<close>, returning or raising, every reference of \<open>h\<close> holds afterwards the object it
  held before; a call that returns, returns a reference that \<open>h\<close> did not have, to a
  new tuple; construction always returns, replacement returns for overrides naming
  fields, and reversal returns the record of \<^const>\<open>reverse\<close> whenever that returns.
\<close>

theorem Kernel_immutable:
  "(\<forall>i < length h. run rz h cs ! i = h ! i)
   \<and> (\<forall>i < length h. snd (perform rz h c) ! i = h ! i)
   \<and> (\<forall>r'. fst (perform rz h c) = Inr r'
         \<longrightarrow> length h \<le> r' \<and> (\<exists>k. snd (perform rz h c) ! r' = Tuple k))
   \<and> (\<exists>r' k. perform rz h (New a1 a2 a3 a4 a5 a6 a7 a8 a9 a10 a11 a12 a13 a14)
               = (Inr r', h @ [Tuple k]) \<and> r' = length h)
   \<and> (r < length h \<and> h ! r = Tuple s \<and> set (map fst kws) \<subseteq> set field_names
        \<longrightarrow> (\<exists>r' k. fst (perform rz h (Replace r kws)) = Inr r' \<and> length h \<le> r'
               \<and> Kernel_replace s kws = Inr k
               \<and> snd (perform rz h (Replace r kws)) ! r' = Tuple k))
   \<and> (r < length h \<and> h ! r = Tuple s \<and> reverse rz s = Inr k
        \<longrightarrow> (\<exists>r'. fst (perform rz h (Reverse r)) = Inr r' \<and> length h \<le> r'
               \<and> snd (perform rz h (Reverse r)) ! r' = Tuple k))"
proof (intro conjI allI impI)
  fix i assume "i < length h"
  with run_grows [of rz h cs] show "run rz h cs ! i = h ! i"
    by (auto simp: nth_append)
next
  fix i assume "i < length h"
  with perform_grows [of rz h c] show "snd (perform rz h c) ! i = h ! i"
    by (auto simp: nth_append)
next
  fix r' assume "fst (perform rz h c) = Inr r'"
  from perform_fresh [OF this] show "length h \<le> r'"
    and "\<exists>k. snd (perform rz h c) ! r' = Tuple k"
    by simp_all
next
  from Kernel_new_h_returns [of a1 a2 a3 a4 a5 a6 a7 a8 a9 a10 a11 a12 a13 a14 h]
  show "\<exists>r' k. perform rz h (New a1 a2 a3 a4 a5 a6 a7 a8 a9 a10 a11 a12 a13 a14)
      = (Inr r', h @ [Tuple k]) \<and> r' = length h"
    by auto
next
  assume a: "r < length h \<and> h ! r = Tuple s \<and> set (map fst kws) \<subseteq> set field_names"
  then obtain k where k: "Kernel_replace s kws = Inr k"
    using Kernel_replace_valid [of kws s] by blast
  from a have "r < length h" "h ! r = Tuple s"
    by simp_all
  from Kernel_replace_h_refines [OF this, of kws] k obtain kw1 kw2 where
    "Kernel_replace_h h r kws = (Inr (length h + 2), h @ [Dict kw1, Dict kw2, Tuple k])"
    by auto
  with k show "\<exists>r' k. fst (perform rz h (Replace r kws)) = Inr r' \<and> length h \<le> r'
      \<and> Kernel_replace s kws = Inr k \<and> snd (perform rz h (Replace r kws)) ! r' = Tuple k"
    by (simp add: nth_append)
next
  assume a: "r < length h \<and> h ! r = Tuple s \<and> reverse rz s = Inr k"
  then have "r < length h" "h ! r = Tuple s" "reverse rz s = Inr k"
    by simp_all
  from reverse_h_refines [OF this] obtain kw1 kw2 where
    "reverse_h rz h r = (Inr (length h + 2), h @ [Dict kw1, Dict kw2, Tuple k])"
    by blast
  then show "\<exists>r'. fst (perform rz h (Reverse r)) = Inr r' \<and> length h \<le> r'
      \<and> snd (perform rz h (Reverse r)) ! r' = Tuple k"
    by (simp add: nth_append)
qed

theorem Kernel_immutable_witness:
  "run revert_zipped [Tuple example_kernel, Tuple example_flat]
      [Replace 1 [(''marginal'', PEnum NO)], Reverse 0, Replace 0 [(''none'', PNone)],
       Reverse 9,
       New PNone PNone PNone PNone PNone PNone PNone PNone PNone PNone PNone PNone PNone PNone]
      ! 0 = Tuple example_kernel
   \<and> run revert_zipped [Tuple example_kernel, Tuple example_flat]
      [Replace 1 [(''marginal'', PEnum NO)], Reverse 0, Replace 0 [(''none'', PNone)],
       Reverse 9,
       New PNone PNone PNone PNone PNone PNone PNone PNone PNone PNone PNone PNone PNone PNone]
      ! 1 = Tuple example_flat
   \<and> (\<exists>r' k. fst (perform revert_zipped [Tuple example_kernel, Tuple example_flat]
                  (Replace 1 [(''marginal'', PEnum NO)])) = Inr r'
         \<and> 2 \<le> r' \<and> Kernel_replace example_flat [(''marginal'', PEnum NO)] = Inr k
         \<and> snd (perform revert_zipped [Tuple example_kernel, Tuple example_flat]
                  (Replace 1 [(''marginal'', PEnum NO)])) ! r' = Tuple k)
   \<and> snd (perform revert_zipped [Tuple example_kernel, Tuple example_flat]
        (Replace 1 [(''marginal'', PEnum NO)])) ! 1 = Tuple example_flat"
proof -
  let ?h = "[Tuple example_kernel, Tuple example_flat]"
  let ?kws = "[(''marginal'', PEnum NO)]"
  let ?cs = "[Replace 1 ?kws, Reverse 0, Replace 0 [(''none'', PNone)], Reverse 9,
       New PNone PNone PNone PNone PNone PNone PNone PNone PNone PNone PNone PNone PNone PNone]"
  have v: "set (map fst ?kws) \<subseteq> set field_names"
    by (simp add: field_names_def)
  have l: "(0::nat) < length ?h" "(1::nat) < length ?h" "?h ! 0 = Tuple example_kernel"
    "?h ! 1 = Tuple example_flat" "length ?h = 2"
    by simp_all
  note t = Kernel_immutable [of ?h revert_zipped ?cs "Replace 1 ?kws" _ _ _ _ _ _ _ _ _ _
      _ _ _ _ 1 example_flat ?kws]
  from t l have "run revert_zipped ?h ?cs ! 0 = Tuple example_kernel"
    "run revert_zipped ?h ?cs ! 1 = Tuple example_flat"
    "snd (perform revert_zipped ?h (Replace 1 ?kws)) ! 1 = Tuple example_flat"
    by metis+
  moreover from t l v have "\<exists>r' k. fst (perform revert_zipped ?h (Replace 1 ?kws)) = Inr r'
      \<and> 2 \<le> r' \<and> Kernel_replace example_flat ?kws = Inr k
      \<and> snd (perform revert_zipped ?h (Replace 1 ?kws)) ! r' = Tuple k"
    by metis
  ultimately show ?thesis by blast
qed

end
